theory Spec2Isabelle
  imports Complex_Main "HOL-Library.AList" "HOL-Library.Log_Nat"
begin

section \<open>Client registry and rate limiter of the coordinator (server.py)\<close>

text \<open>
  The embedding follows \<^verbatim>\<open>ClientManager\<close> and \<^verbatim>\<open>ConnectionRateLimiter\<close> of
  \<^verbatim>\<open>src/server.py\<close>. Conventions:
  \<^item> a \<^verbatim>\<open>datetime\<close> is an \<open>int\<close>, the number of microseconds (the resolution of
    \<^verbatim>\<open>datetime\<close>) since a fixed origin; every call of \<^verbatim>\<open>datetime.now()\<close> or
    \<^verbatim>\<open>time.time()\<close> is a parameter of the operation that makes it;
  \<^item> a Python \<^verbatim>\<open>float\<close> (CPU and memory percentages, \<^verbatim>\<open>time.time()\<close>, the result of
    \<^verbatim>\<open>total_seconds()\<close>) is the real number it denotes, and a comparison of floats, or
    of a float with an \<^verbatim>\<open>int\<close>, is the comparison of these numbers; an arithmetic
    operation on floats returns the exact result rounded to the nearest double, ties to
    even (\<open>round53\<close>); infinities, NaN and overflow are left out;
  \<^item> a \<^verbatim>\<open>dict\<close> is an association list in insertion order with
    \<open>AList.update\<close> as item assignment (an existing key keeps its place, a new key
    goes last) and \<open>map_of\<close> as lookup;
  \<^item> each method runs under the lock of its object, so a method is one atomic state
    transformer returning its result and the new state; calls of \<^verbatim>\<open>logger\<close> are
    left out.
\<close>

subsection \<open>Data\<close>

type_synonym datetime = int

record ClientInfo =
  client_id :: string
  ip :: string
  hostname :: string
  last_seen :: datetime
  status :: string
  connection_time :: datetime
  resource_usage :: real
  commands_processed :: int

text \<open>
  The dataclass constructor as \<^verbatim>\<open>register_client\<close> calls it: \<^verbatim>\<open>connection_time\<close> is
  given, so \<^verbatim>\<open>__post_init__\<close> changes nothing, and the other fields take their defaults.
\<close>

definition ClientInfo_init :: "string \<Rightarrow> string \<Rightarrow> string \<Rightarrow> datetime \<Rightarrow> datetime \<Rightarrow> ClientInfo" where
  "ClientInfo_init cid addr host seen conn =
     \<lparr>client_id = cid, ip = addr, hostname = host, last_seen = seen,
      status = ''online'', connection_time = conn,
      resource_usage = 0, commands_processed = 0\<rparr>"

record SystemResources =
  cpu_usage :: real
  memory_usage :: real
  active_connections :: int

record 'cmd ClientManager =
  clients :: "(string \<times> ClientInfo) list"
  commands_queue :: "(string \<times> 'cmd list) list"
  max_clients :: int
  resource_threshold :: real
  system_resources :: SystemResources

definition ClientManager_init :: "int \<Rightarrow> real \<Rightarrow> 'cmd ClientManager" where
  "ClientManager_init maxc thr =
     \<lparr>clients = [], commands_queue = [], max_clients = maxc, resource_threshold = thr,
      system_resources = \<lparr>cpu_usage = 0, memory_usage = 0, active_connections = 0\<rparr>\<rparr>"

subsection \<open>Operations of ClientManager\<close>

text \<open>\<^verbatim>\<open>len([c for c in self.clients.values() if c.status == 'online'])\<close>\<close>

definition active_clients :: "'cmd ClientManager \<Rightarrow> int" where
  "active_clients s = int (length (filter (\<lambda>c. status c = ''online'') (map snd (clients s))))"

text \<open>One successful round of the monitor thread, with the two samples of psutil.\<close>

definition monitor :: "real \<Rightarrow> real \<Rightarrow> 'cmd ClientManager \<Rightarrow> 'cmd ClientManager" where
  "monitor cpu mem s =
     s\<lparr>system_resources :=
         \<lparr>cpu_usage = cpu, memory_usage = mem, active_connections = active_clients s\<rparr>\<rparr>"

definition can_accept_client :: "'cmd ClientManager \<Rightarrow> bool" where
  "can_accept_client s =
     (if active_clients s \<ge> max_clients s then False
      else if cpu_usage (system_resources s) > 80 \<or> memory_usage (system_resources s) > 85
      then False
      else True)"

text \<open>\<open>seen\<close> and \<open>conn\<close> are the two successive readings of the clock.\<close>

definition register_client ::
  "string \<Rightarrow> string \<Rightarrow> string \<Rightarrow> datetime \<Rightarrow> datetime \<Rightarrow> 'cmd ClientManager
   \<Rightarrow> bool \<times> 'cmd ClientManager" where
  "register_client cid addr host seen conn s =
     (if \<not> can_accept_client s then (False, s)
      else (True, s\<lparr>clients := AList.update cid (ClientInfo_init cid addr host seen conn)
                                  (clients s)\<rparr>))"

definition update_heartbeat ::
  "string \<Rightarrow> datetime \<Rightarrow> 'cmd ClientManager \<Rightarrow> bool \<times> 'cmd ClientManager" where
  "update_heartbeat cid now s =
     (case map_of (clients s) cid of
        Some c \<Rightarrow>
          (True, s\<lparr>clients := AList.update cid (c\<lparr>last_seen := now, status := ''online''\<rparr>)
                                 (clients s)\<rparr>)
      | None \<Rightarrow> (False, s))"

text \<open>
  \<^verbatim>\<open>commands_queue\<close> is a \<^verbatim>\<open>defaultdict(list)\<close>: reading a missing key stores an
  empty list under it and returns that list.
\<close>

definition defaultdict_getitem ::
  "string \<Rightarrow> (string \<times> 'a list) list \<Rightarrow> 'a list \<times> (string \<times> 'a list) list" where
  "defaultdict_getitem k d =
     (case map_of d k of Some q \<Rightarrow> (q, d) | None \<Rightarrow> ([], AList.update k [] d))"

definition add_command :: "string \<Rightarrow> 'cmd \<Rightarrow> 'cmd ClientManager \<Rightarrow> 'cmd ClientManager" where
  "add_command cid command s =
     (if map_of (clients s) cid \<noteq> None then
        (let (q, d) = defaultdict_getitem cid (commands_queue s) in
         if length q < 10 then
           (let (q', d') = defaultdict_getitem cid d in
            s\<lparr>commands_queue := AList.update cid (q' @ [command]) d'\<rparr>)
         else s\<lparr>commands_queue := d\<rparr>)
      else s)"

text \<open>\<^verbatim>\<open>pop(0)\<close> on a stored, non-empty list; \<^verbatim>\<open>None\<close> otherwise.\<close>

definition get_command :: "string \<Rightarrow> 'cmd ClientManager \<Rightarrow> 'cmd option \<times> 'cmd ClientManager" where
  "get_command cid s =
     (case map_of (commands_queue s) cid of
        Some (c # q) \<Rightarrow> (Some c, s\<lparr>commands_queue := AList.update cid q (commands_queue s)\<rparr>)
      | _ \<Rightarrow> (None, s))"

text \<open>
  Rounding of a real number to binary64: round to nearest, ties to even, with a
  significand of 53 bits. \<open>binade x\<close> is the integer \<open>k\<close> with \<open>2 ^ k \<le> \<bar>x\<bar> < 2 ^ (k + 1)\<close>,
  and the unit in the last place of \<open>x\<close> is \<open>2 ^ (k - 52)\<close>.
\<close>

definition round_half_even :: "real \<Rightarrow> int" where
  "round_half_even y =
     (let f = \<lfloor>y\<rfloor> in
      if y - of_int f < 1 / 2 then f
      else if y - of_int f > 1 / 2 then f + 1
      else if even f then f else f + 1)"

definition binade :: "real \<Rightarrow> int" where
  "binade x = (if 1 \<le> \<bar>x\<bar> then bitlen \<lfloor>\<bar>x\<bar>\<rfloor> - 1 else - bitlen (\<lceil>1 / \<bar>x\<bar>\<rceil> - 1))"

definition scale2 :: "real \<Rightarrow> int \<Rightarrow> real" where
  "scale2 x e = (if 0 \<le> e then x * 2 ^ nat e else x / 2 ^ nat (- e))"

definition round53 :: "real \<Rightarrow> real" where
  "round53 x =
     (if x = 0 then 0
      else let e = binade x - 52 in scale2 (of_int (round_half_even (scale2 x (- e)))) e)"

text \<open>
  \<^verbatim>\<open>timedelta.total_seconds()\<close>: the number of microseconds divided by \<open>10^6\<close>, a true
  division of two integers, which gives the correctly rounded double.
\<close>

definition total_seconds :: "int \<Rightarrow> real" where
  "total_seconds d = round53 (real_of_int d / 1000000)"

text \<open>The subtraction of two floats.\<close>

definition float_sub :: "real \<Rightarrow> real \<Rightarrow> real" where
  "float_sub a b = round53 (a - b)"

text \<open>
  The loop of \<^verbatim>\<open>cleanup_inactive_clients\<close> over \<^verbatim>\<open>self.clients.items()\<close>; the list
  \<^verbatim>\<open>inactive_clients\<close> it collects is only logged.
\<close>

fun cleanup_loop :: "datetime \<Rightarrow> real \<Rightarrow> (string \<times> ClientInfo) list \<Rightarrow> (string \<times> ClientInfo) list" where
  "cleanup_loop current_time timeout_seconds [] = []"
| "cleanup_loop current_time timeout_seconds ((cid, client) # rest) =
     (let time_diff = total_seconds (current_time - last_seen client) in
      (if time_diff > timeout_seconds then (cid, client\<lparr>status := ''offline''\<rparr>)
       else (cid, client)) # cleanup_loop current_time timeout_seconds rest)"

definition cleanup_inactive_clients ::
  "datetime \<Rightarrow> real \<Rightarrow> 'cmd ClientManager \<Rightarrow> 'cmd ClientManager" where
  "cleanup_inactive_clients current_time timeout_seconds s =
     s\<lparr>clients := cleanup_loop current_time timeout_seconds (clients s)\<rparr>"

subsection \<open>ConnectionRateLimiter\<close>

record ConnectionRateLimiter =
  connection_times :: "real list"
  max_connections :: int

definition ConnectionRateLimiter_init :: "int \<Rightarrow> ConnectionRateLimiter" where
  "ConnectionRateLimiter_init m = \<lparr>connection_times = [], max_connections = m\<rparr>"

definition allow_connection :: "real \<Rightarrow> ConnectionRateLimiter \<Rightarrow> bool \<times> ConnectionRateLimiter" where
  "allow_connection current_time r =
     (let kept = filter (\<lambda>t. float_sub current_time t < 60) (connection_times r) in
      if int (length kept) < max_connections r
      then (True, r\<lparr>connection_times := kept @ [current_time]\<rparr>)
      else (False, r\<lparr>connection_times := kept\<rparr>))"

subsection \<open>Sequences of operations\<close>

datatype 'cmd operation =
    Register string string string datetime datetime
  | Touch string datetime
  | Enqueue string 'cmd
  | Dequeue string
  | Sweep datetime real
  | Monitor real real

fun step :: "'cmd operation \<Rightarrow> 'cmd ClientManager \<Rightarrow> 'cmd ClientManager" where
  "step (Register cid addr host seen conn) s = snd (register_client cid addr host seen conn s)"
| "step (Touch cid now) s = snd (update_heartbeat cid now s)"
| "step (Enqueue cid command) s = add_command cid command s"
| "step (Dequeue cid) s = snd (get_command cid s)"
| "step (Sweep now timeout_seconds) s = cleanup_inactive_clients now timeout_seconds s"
| "step (Monitor cpu mem) s = monitor cpu mem s"

fun run :: "'cmd operation list \<Rightarrow> 'cmd ClientManager \<Rightarrow> 'cmd ClientManager" where
  "run [] s = s"
| "run (x # xs) s = run xs (step x s)"

text \<open>The queue stored for a client, empty when none is stored.\<close>

definition queue_of :: "string \<Rightarrow> 'cmd ClientManager \<Rightarrow> 'cmd list" where
  "queue_of cid s = (case map_of (commands_queue s) cid of None \<Rightarrow> [] | Some q \<Rightarrow> q)"

section \<open>Properties of the float operations\<close>

text \<open>
  Rounding changes a number by at most the fraction \<open>2^-53\<close> of it, and leaves an
  integer below \<open>2^53\<close> as it is.
\<close>

lemma scale2_powi: "scale2 x e = x * 2 powi e"
proof (cases "0 \<le> e")
  case True
  then show ?thesis by (simp add: scale2_def power_int_nonneg_exp)
next
  case False
  then have "(2::real) powi e = inverse (2 ^ nat (- e))"
    using power_int_minus [of "2::real" "- e"] by (simp add: power_int_nonneg_exp)
  with False show ?thesis by (simp add: scale2_def divide_inverse)
qed

lemma round_half_even_error: "\<bar>of_int (round_half_even y) - y\<bar> \<le> 1 / 2"
  unfolding round_half_even_def Let_def by (auto; linarith)

lemma round_half_even_of_int: "round_half_even (of_int n) = n"
  by (simp add: round_half_even_def)

lemma binade_lower:
  assumes "x \<noteq> 0"
  shows "2 powi (binade x) \<le> \<bar>x\<bar>"
proof (cases "1 \<le> \<bar>x\<bar>")
  case True
  then have pos: "0 < \<lfloor>\<bar>x\<bar>\<rfloor>" by linarith
  then have b1: "1 \<le> bitlen \<lfloor>\<bar>x\<bar>\<rfloor>" by (simp add: bitlen_alt_def)
  from bitlen_bounds [OF pos] have "2 ^ nat (bitlen \<lfloor>\<bar>x\<bar>\<rfloor> - 1) \<le> \<lfloor>\<bar>x\<bar>\<rfloor>" by simp
  then have "(2::real) ^ nat (bitlen \<lfloor>\<bar>x\<bar>\<rfloor> - 1) \<le> of_int \<lfloor>\<bar>x\<bar>\<rfloor>"
    by (metis of_int_le_iff of_int_numeral of_int_power)
  also have "\<dots> \<le> \<bar>x\<bar>" by simp
  finally show ?thesis using True b1 by (simp add: binade_def power_int_nonneg_exp)
next
  case False
  with assms have x: "0 < \<bar>x\<bar>" "\<bar>x\<bar> < 1" by simp_all
  then have "1 < 1 / \<bar>x\<bar>" by simp
  then have pos: "0 < \<lceil>1 / \<bar>x\<bar>\<rceil> - 1" by linarith
  let ?b = "bitlen (\<lceil>1 / \<bar>x\<bar>\<rceil> - 1)"
  from bitlen_bounds [OF pos] have "\<lceil>1 / \<bar>x\<bar>\<rceil> - 1 < 2 ^ nat ?b" by simp
  then have "\<lceil>1 / \<bar>x\<bar>\<rceil> \<le> 2 ^ nat ?b" by simp
  then have "of_int \<lceil>1 / \<bar>x\<bar>\<rceil> \<le> (2::real) ^ nat ?b"
    by (metis of_int_le_iff of_int_numeral of_int_power)
  moreover have "1 / \<bar>x\<bar> \<le> of_int \<lceil>1 / \<bar>x\<bar>\<rceil>" by simp
  ultimately have "1 / \<bar>x\<bar> \<le> 2 ^ nat ?b" by linarith
  with x have "1 / 2 ^ nat ?b \<le> \<bar>x\<bar>"
    by (simp add: field_simps)
  moreover have "(2::real) powi (- ?b) = 1 / 2 ^ nat ?b"
    using bitlen_nonneg [of "\<lceil>1 / \<bar>x\<bar>\<rceil> - 1"]
    by (simp add: power_int_minus_divide power_int_nonneg_exp)
  ultimately show ?thesis using False by (simp add: binade_def)
qed

lemma binade_upper:
  assumes "x \<noteq> 0"
  shows "\<bar>x\<bar> < 2 powi (binade x + 1)"
proof (cases "1 \<le> \<bar>x\<bar>")
  case True
  then have pos: "0 < \<lfloor>\<bar>x\<bar>\<rfloor>" by linarith
  let ?b = "bitlen \<lfloor>\<bar>x\<bar>\<rfloor>"
  from bitlen_bounds [OF pos] have "\<lfloor>\<bar>x\<bar>\<rfloor> + 1 \<le> 2 ^ nat ?b" by simp
  then have "of_int (\<lfloor>\<bar>x\<bar>\<rfloor> + 1) \<le> (2::real) ^ nat ?b"
    by (metis of_int_le_iff of_int_numeral of_int_power)
  moreover have "\<bar>x\<bar> < of_int (\<lfloor>\<bar>x\<bar>\<rfloor> + 1)" by linarith
  ultimately have "\<bar>x\<bar> < 2 ^ nat ?b" by linarith
  then show ?thesis
    using True bitlen_nonneg [of "\<lfloor>\<bar>x\<bar>\<rfloor>"] by (simp add: binade_def power_int_nonneg_exp)
next
  case False
  with assms have x: "0 < \<bar>x\<bar>" "\<bar>x\<bar> < 1" by simp_all
  then have "1 < 1 / \<bar>x\<bar>" by simp
  then have pos: "0 < \<lceil>1 / \<bar>x\<bar>\<rceil> - 1" by linarith
  let ?b = "bitlen (\<lceil>1 / \<bar>x\<bar>\<rceil> - 1)"
  from pos have b1: "1 \<le> ?b" by (simp add: bitlen_alt_def)
  from bitlen_bounds [OF pos] have "2 ^ nat (?b - 1) \<le> \<lceil>1 / \<bar>x\<bar>\<rceil> - 1" by simp
  then have "(2::real) ^ nat (?b - 1) \<le> of_int (\<lceil>1 / \<bar>x\<bar>\<rceil> - 1)"
    by (metis of_int_le_iff of_int_numeral of_int_power)
  moreover have "of_int (\<lceil>1 / \<bar>x\<bar>\<rceil> - 1) < 1 / \<bar>x\<bar>" by linarith
  ultimately have "2 ^ nat (?b - 1) < 1 / \<bar>x\<bar>" by linarith
  with x have "\<bar>x\<bar> < 1 / 2 ^ nat (?b - 1)"
    by (simp add: field_simps)
  moreover have "(2::real) powi (- ?b + 1) = 1 / 2 ^ nat (?b - 1)"
    using b1 power_int_minus_divide [of "2::real" "?b - 1"]
    by (simp add: power_int_nonneg_exp)
  ultimately show ?thesis using False by (simp add: binade_def)
qed

lemma round53_error:
  "\<bar>round53 x - x\<bar> \<le> \<bar>x\<bar> / 2 ^ 53"
proof (cases "x = 0")
  case True
  then show ?thesis by (simp add: round53_def)
next
  case False
  define e where "e = binade x - 52"
  define y where "y = x * 2 powi (- e)"
  have p: "(2::real) powi e * 2 powi (- e) = 1"
    by (simp add: power_int_minus)
  have r: "round53 x = of_int (round_half_even y) * 2 powi e"
    using False by (simp add: round53_def Let_def scale2_powi e_def y_def)
  have "x = y * 2 powi e"
    using p by (simp add: y_def mult.assoc mult.commute)
  with r have "round53 x - x = (of_int (round_half_even y) - y) * 2 powi e"
    by (simp add: algebra_simps)
  then have "\<bar>round53 x - x\<bar> = \<bar>of_int (round_half_even y) - y\<bar> * 2 powi e"
    by (simp add: abs_mult)
  also have "\<dots> \<le> 1 / 2 * 2 powi e"
    by (intro mult_right_mono round_half_even_error) simp
  also have "(2::real) powi e = 2 powi (binade x) / 2 ^ 52"
    unfolding e_def by (simp add: power_int_diff)
  also have "1 / 2 * ((2::real) powi (binade x) / 2 ^ 52) = 2 powi (binade x) / 2 ^ 53"
    by simp
  also have "\<dots> \<le> \<bar>x\<bar> / 2 ^ 53"
    using binade_lower [OF False] by (simp add: divide_right_mono)
  finally show ?thesis .
qed

lemma round53_of_int:
  assumes "\<bar>n\<bar> < 2 ^ 53"
  shows "round53 (of_int n) = of_int n"
proof (cases "n = 0")
  case True
  then show ?thesis by (simp add: round53_def)
next
  case False
  define e where "e = binade (of_int n) - 52"
  from False have nz: "real_of_int n \<noteq> 0" by simp
  from assms have "\<bar>real_of_int n\<bar> < 2 ^ 53"
    by (metis of_int_abs of_int_less_iff of_int_numeral of_int_power)
  with binade_lower [OF nz] have lt: "(2::real) powi (binade (of_int n)) < 2 ^ 53"
    by simp
  have "binade (real_of_int n) < 53"
  proof (rule ccontr)
    assume "\<not> binade (real_of_int n) < 53"
    then have "(2::real) powi 53 \<le> 2 powi (binade (of_int n))"
      by (intro power_int_increasing) simp_all
    with lt show False by simp
  qed
  then have e: "e \<le> 0" by (simp add: e_def)
  then have "real_of_int n * 2 powi (- e) = of_int (n * 2 ^ nat (- e))"
    by (simp add: power_int_nonneg_exp)
  then have "round_half_even (real_of_int n * 2 powi (- e)) = n * 2 ^ nat (- e)"
    by (simp only: round_half_even_of_int)
  then have "round53 (of_int n) = of_int (n * 2 ^ nat (- e)) * 2 powi e"
    using nz by (simp add: round53_def Let_def scale2_powi e_def [symmetric])
  also have "\<dots> = of_int n * (2 powi (- e) * 2 powi e)"
    using e by (simp add: power_int_nonneg_exp)
  also have "(2::real) powi (- e) * 2 powi e = 1"
    by (simp add: power_int_minus)
  finally show ?thesis by simp
qed

lemma total_seconds_exceeds:
  assumes "0 \<le> T" and "T \<le> 4294967296" and "T * 1000000 < d"
  shows "of_int T < total_seconds d"
proof -
  define x where "x = real_of_int d / 1000000"
  from assms(3) have "T * 1000000 + 1 \<le> d" by simp
  then have "real_of_int (T * 1000000 + 1) \<le> real_of_int d" by (simp only: of_int_le_iff)
  then have x: "real_of_int T + 1 / 1000000 \<le> x" by (simp add: x_def field_simps)
  from assms(1) have T0: "0 \<le> real_of_int T" by simp
  from assms(2) have T1: "real_of_int T \<le> 4294967296"
    by (metis of_int_le_iff of_int_numeral)
  have err: "\<bar>round53 x - x\<bar> \<le> \<bar>x\<bar> / 9007199254740992"
    using round53_error [of x] by simp
  from x T0 T1 err have "real_of_int T < round53 x" by linarith
  then show ?thesis by (simp add: total_seconds_def x_def)
qed

lemma total_seconds_not_exceeds:
  assumes "0 \<le> T" and "T \<le> 4294967296" and "d \<le> T * 1000000"
  shows "total_seconds d \<le> of_int T"
proof (cases "d = T * 1000000")
  case True
  from assms(1,2) have "\<bar>T\<bar> < 2 ^ 53" by simp
  then have "round53 (of_int T) = of_int T" by (rule round53_of_int)
  with True show ?thesis by (simp add: total_seconds_def)
next
  case False
  define x where "x = real_of_int d / 1000000"
  from False assms(3) have "d + 1 \<le> T * 1000000" by simp
  then have "real_of_int (d + 1) \<le> real_of_int (T * 1000000)" by (simp only: of_int_le_iff)
  then have x: "x + 1 / 1000000 \<le> real_of_int T" by (simp add: x_def field_simps)
  from assms(1) have T0: "0 \<le> real_of_int T" by simp
  from assms(2) have T1: "real_of_int T \<le> 4294967296"
    by (metis of_int_le_iff of_int_numeral)
  have err: "\<bar>round53 x - x\<bar> \<le> \<bar>x\<bar> / 9007199254740992"
    using round53_error [of x] by simp
  from x T0 T1 err have "round53 x \<le> real_of_int T" by linarith
  then show ?thesis by (simp add: total_seconds_def x_def)
qed

lemma total_seconds_whole_timeout:
  assumes "0 \<le> T" and "T \<le> 4294967296"
  shows "(of_int T < total_seconds d) = (T * 1000000 < d)"
  using total_seconds_exceeds [OF assms, of d] total_seconds_not_exceeds [OF assms, of d]
  by (cases "T * 1000000 < d") simp_all

lemma float_sub_below:
  assumes "0 \<le> a - b" and "a - b \<le> 59"
  shows "float_sub a b < 60"
proof -
  define x where "x = a - b"
  have "\<bar>round53 x - x\<bar> \<le> \<bar>x\<bar> / 9007199254740992"
    using round53_error [of x] by simp
  moreover from assms have "0 \<le> x" "x \<le> 59" by (simp_all add: x_def)
  ultimately have "round53 x < 60" by linarith
  then show ?thesis by (simp add: float_sub_def x_def)
qed

lemma float_sub_above:
  assumes "61 \<le> a - b"
  shows "\<not> float_sub a b < 60"
proof -
  define x where "x = a - b"
  have "\<bar>round53 x - x\<bar> \<le> \<bar>x\<bar> / 9007199254740992"
    using round53_error [of x] by simp
  moreover from assms have "61 \<le> x" by (simp add: x_def)
  ultimately have "\<not> round53 x < 60" by linarith
  then show ?thesis by (simp add: float_sub_def x_def)
qed

subsection \<open>Evaluation at given numbers\<close>

lemma bitlen_numeral: "bitlen (numeral n) = bitlen (numeral n div 2) + 1"
  by (subst compute_bitlen) simp

lemma bitlen_one: "bitlen 1 = 1"
  by (subst compute_bitlen) simp

lemmas float_eval =
  round53_def binade_def round_half_even_def scale2_def Let_def bitlen_numeral bitlen_one

lemma total_seconds_399999999: "300 < total_seconds 399999999"
  by (simp add: total_seconds_def float_eval)

lemma total_seconds_200000000: "total_seconds 200000000 = 200"
  by (simp add: total_seconds_def float_eval)

lemma total_seconds_301000000: "total_seconds 301000000 = 301"
  by (simp add: total_seconds_def float_eval)

text \<open>
  An elapsed time of 300000 microseconds is the double written \<^verbatim>\<open>0.3\<close>, which is below
  three tenths; and 17179869185000001 microseconds are 17179869185 seconds as a double.
\<close>

lemma total_seconds_300000: "total_seconds 300000 = 5404319552844595 / 18014398509481984"
  by (simp add: total_seconds_def float_eval)

lemma total_seconds_17179869185000001: "total_seconds 17179869185000001 = 17179869185"
  by (simp add: total_seconds_def float_eval)

section \<open>Admission\<close>

lemma map_of_AList_update: "map_of (AList.update k v al) = (map_of al)(k \<mapsto> v)"
  by (rule update_conv')




section \<open>Counting online clients\<close>

lemma count_update_le:
  "length (filter P (map snd (AList.update k v al))) \<le> Suc (length (filter P (map snd al)))"
  by (induction al) auto

lemma count_update_ge:
  "P v \<Longrightarrow> length (filter P (map snd al)) \<le> length (filter P (map snd (AList.update k v al)))"
  by (induction al) auto

lemma register_client_max_clients [simp]:
  "max_clients (snd (register_client cid addr host seen conn s)) = max_clients s"
  by (simp add: register_client_def)

lemma register_client_active_le:
  assumes "active_clients s \<le> max_clients s"
  shows "active_clients (snd (register_client cid addr host seen conn s)) \<le> max_clients s"
proof (cases "can_accept_client s")
  case False
  with assms show ?thesis by (simp add: register_client_def)
next
  case True
  then have "active_clients s < max_clients s"
    by (simp add: can_accept_client_def split: if_splits)
  moreover have "active_clients (snd (register_client cid addr host seen conn s))
      \<le> active_clients s + 1"
    using count_update_le [of "\<lambda>c. status c = ''online''" cid
        "ClientInfo_init cid addr host seen conn" "clients s"]
    by (simp add: register_client_def active_clients_def True)
  ultimately show ?thesis by linarith
qed

lemma register_client_active_mono:
  "active_clients s \<le> active_clients (snd (register_client cid addr host seen conn s))"
  using count_update_ge [of "\<lambda>c. status c = ''online''"
      "ClientInfo_init cid addr host seen conn" "clients s" cid]
  by (simp add: register_client_def active_clients_def ClientInfo_init_def)

lemma monitor_active [simp]: "active_clients (monitor cpu mem s) = active_clients s"
  by (simp add: monitor_def active_clients_def)

lemma monitor_max_clients [simp]: "max_clients (monitor cpu mem s) = max_clients s"
  by (simp add: monitor_def)

text \<open>
  Sequences of registrations. The monitor thread may refresh the resource snapshot
  between two calls, so its rounds are allowed in the sequence.
\<close>

fun admission_op :: "'cmd operation \<Rightarrow> bool" where
  "admission_op (Register cid addr host seen conn) = True"
| "admission_op (Monitor cpu mem) = True"
| "admission_op other = False"

lemma admission_run_max_clients:
  "list_all admission_op ops \<Longrightarrow> max_clients (run ops s) = max_clients s"
proof (induction ops arbitrary: s)
  case Nil
  show ?case by simp
next
  case (Cons x xs)
  then show ?case by (cases x) simp_all
qed

lemma admission_run_active_le:
  "list_all admission_op ops \<Longrightarrow> active_clients s \<le> max_clients s
   \<Longrightarrow> active_clients (run ops s) \<le> max_clients s"
proof (induction ops arbitrary: s)
  case Nil
  then show ?case by simp
next
  case (Cons x xs)
  from Cons.prems have xs: "list_all admission_op xs" and x: "admission_op x" by simp_all
  from x Cons.prems(2) have "active_clients (step x s) \<le> max_clients (step x s)"
    and "max_clients (step x s) = max_clients s"
    by (cases x; simp add: register_client_active_le)+
  with Cons.IH [OF xs, of "step x s"] show ?case by simp
qed

lemma admission_run_active_mono:
  "list_all admission_op ops \<Longrightarrow> active_clients s \<le> active_clients (run ops s)"
proof (induction ops arbitrary: s)
  case Nil
  show ?case by simp
next
  case (Cons x xs)
  from Cons.prems have xs: "list_all admission_op xs" and x: "admission_op x" by simp_all
  from x have "active_clients s \<le> active_clients (step x s)"
    by (cases x) (simp_all add: register_client_active_mono)
  with Cons.IH [OF xs, of "step x s"]
  have "active_clients s \<le> active_clients (run xs (step x s))" by linarith
  then show ?case by simp
qed

lemma register_client_full:
  "max_clients s \<le> active_clients s \<Longrightarrow> register_client cid addr host seen conn s = (False, s)"
  by (simp add: register_client_def can_accept_client_def)

text \<open>
  C2. In a run of registrations from the empty registry (capacity \<open>maxc \<ge> 0\<close>) the number
  of online clients never exceeds \<^verbatim>\<open>max_clients\<close>; and once it has reached
  \<^verbatim>\<open>max_clients\<close>, every later registration, after any further registrations, returns
  False.
\<close>

theorem admit_only_capacity:
  assumes "0 \<le> maxc" and "list_all admission_op ops"
  shows "active_clients (run ops (ClientManager_init maxc thr :: 'cmd ClientManager)) \<le> maxc
    \<and> (active_clients (run ops (ClientManager_init maxc thr :: 'cmd ClientManager)) = maxc
       \<longrightarrow> (\<forall>ops' cid addr host seen conn. list_all admission_op ops' \<longrightarrow>
              fst (register_client cid addr host seen conn
                    (run ops' (run ops (ClientManager_init maxc thr :: 'cmd ClientManager))))
              = False))"
proof -
  let ?s0 = "ClientManager_init maxc thr :: 'cmd ClientManager"
  have m0: "max_clients ?s0 = maxc" and a0: "active_clients ?s0 = 0"
    by (simp_all add: ClientManager_init_def active_clients_def)
  from assms a0 m0 have le: "active_clients (run ops ?s0) \<le> maxc"
    using admission_run_active_le [of ops ?s0] by simp
  have "fst (register_client cid addr host seen conn (run ops' (run ops ?s0))) = False"
    if full: "active_clients (run ops ?s0) = maxc" and ops': "list_all admission_op ops'"
    for ops' cid addr host seen conn
  proof -
    have "max_clients (run ops' (run ops ?s0)) = maxc"
      using admission_run_max_clients [OF ops'] admission_run_max_clients [OF assms(2)] m0
      by simp
    moreover have "maxc \<le> active_clients (run ops' (run ops ?s0))"
      using admission_run_active_mono [OF ops', of "run ops ?s0"] full by simp
    ultimately show ?thesis by (simp add: register_client_full)
  qed
  with le show ?thesis by blast
qed

theorem admit_only_capacity_witness:
  "(0::int) \<le> 2
   \<and> list_all admission_op
        [Register ''c1'' ''10.0.0.1'' ''h1'' 1 2, Monitor 10 20,
         Register ''c2'' ''10.0.0.2'' ''h2'' 3 4 :: nat operation]
   \<and> active_clients
        (run [Register ''c1'' ''10.0.0.1'' ''h1'' 1 2, Monitor 10 20,
              Register ''c2'' ''10.0.0.2'' ''h2'' 3 4]
           (ClientManager_init 2 0.8 :: nat ClientManager)) = 2
   \<and> fst (register_client ''c4'' ''10.0.0.4'' ''h4'' 7 8
        (run [Register ''c3'' ''10.0.0.3'' ''h3'' 5 6]
          (run [Register ''c1'' ''10.0.0.1'' ''h1'' 1 2, Monitor 10 20,
                Register ''c2'' ''10.0.0.2'' ''h2'' 3 4]
             (ClientManager_init 2 0.8 :: nat ClientManager)))) = False"
proof -
  let ?ops = "[Register ''c1'' ''10.0.0.1'' ''h1'' 1 2, Monitor 10 20,
               Register ''c2'' ''10.0.0.2'' ''h2'' 3 4 :: nat operation]"
  let ?s0 = "ClientManager_init 2 0.8 :: nat ClientManager"
  have h1: "(0::int) \<le> 2" by simp
  have h2: "list_all admission_op ?ops" by simp
  have h3: "list_all admission_op [Register ''c3'' ''10.0.0.3'' ''h3'' 5 6 :: nat operation]"
    by simp
  have full: "active_clients (run ?ops ?s0) = 2"
    by (simp add: register_client_def can_accept_client_def ClientManager_init_def
        active_clients_def monitor_def ClientInfo_init_def)
  from admit_only_capacity [OF h1 h2, of "0.8"] full h3
  have "fst (register_client ''c4'' ''10.0.0.4'' ''h4'' 7 8
        (run [Register ''c3'' ''10.0.0.3'' ''h3'' 5 6] (run ?ops ?s0))) = False"
    by blast
  with h1 h2 full show ?thesis by blast
qed

section \<open>Heartbeats and the inactivity sweep\<close>

lemma keys_update_present:
  "map_of al k = Some v \<Longrightarrow> map fst (AList.update k w al) = map fst al"
  by (induction al) (auto split: if_splits)

lemma cleanup_loop_keys [simp]: "map fst (cleanup_loop now t al) = map fst al"
  by (induction al rule: cleanup_loop.induct) (simp_all add: Let_def)

lemma cleanup_loop_length [simp]: "length (cleanup_loop now t al) = length al"
  by (induction al rule: cleanup_loop.induct) (simp_all add: Let_def)

lemma map_of_cleanup_loop:
  "map_of (cleanup_loop now t al) k =
     map_option (\<lambda>c. if total_seconds (now - last_seen c) > t then c\<lparr>status := ''offline''\<rparr> else c)
       (map_of al k)"
  by (induction al rule: cleanup_loop.induct) (simp_all add: Let_def)

lemma cleanup_loop_idem: "cleanup_loop now t (cleanup_loop now t al) = cleanup_loop now t al"
  by (induction al rule: cleanup_loop.induct) (simp_all add: Let_def)

text \<open>An operation that is a registration of the given identifier.\<close>

fun registers :: "string \<Rightarrow> 'cmd operation \<Rightarrow> bool" where
  "registers cid (Register cid' addr host seen conn) = (cid' = cid)"
| "registers cid other = False"

lemma step_unregistered:
  assumes "\<not> registers cid x" and "map_of (clients s) cid = None"
  shows "map_of (clients (step x s)) cid = None"
proof (cases x)
  case (Register cid' addr host seen conn)
  with assms show ?thesis
    by (simp add: register_client_def map_of_AList_update)
next
  case (Touch cid' now)
  with assms show ?thesis
    by (auto simp: update_heartbeat_def map_of_AList_update split: option.splits)
next
  case (Enqueue cid' command)
  with assms show ?thesis
    by (simp add: add_command_def Let_def split: prod.splits)
next
  case (Dequeue cid')
  with assms show ?thesis
    by (simp add: get_command_def split: option.splits list.splits)
next
  case (Sweep now t)
  with assms show ?thesis
    by (simp add: cleanup_inactive_clients_def map_of_cleanup_loop)
next
  case (Monitor cpu mem)
  with assms show ?thesis by (simp add: monitor_def)
qed

lemma run_unregistered:
  "list_all (\<lambda>x. \<not> registers cid x) ops \<Longrightarrow> map_of (clients s) cid = None
   \<Longrightarrow> map_of (clients (run ops s)) cid = None"
proof (induction ops arbitrary: s)
  case Nil
  then show ?case by simp
next
  case (Cons x xs)
  then show ?case by (simp add: step_unregistered)
qed

text \<open>
  C10. \<^verbatim>\<open>update_heartbeat\<close> on an identifier with no record returns False and changes
  nothing, so no record is made; that is the case in particular after any run from the
  empty registry in which the identifier was never registered. On an identifier with a
  record it returns True, sets \<^verbatim>\<open>last_seen\<close> to now and \<^verbatim>\<open>status\<close> to online in that
  record, and changes nothing else.
\<close>

theorem update_heartbeat_result:
  "(map_of (clients s) cid = None \<longrightarrow> update_heartbeat cid now s = (False, s))
   \<and> (list_all (\<lambda>x. \<not> registers cid x) ops \<longrightarrow>
        update_heartbeat cid now (run ops (ClientManager_init maxc thr :: 'cmd ClientManager))
        = (False, run ops (ClientManager_init maxc thr)))
   \<and> (\<forall>c. map_of (clients s) cid = Some c \<longrightarrow>
        fst (update_heartbeat cid now s) = True
      \<and> map_of (clients (snd (update_heartbeat cid now s))) =
          (map_of (clients s))(cid \<mapsto> c\<lparr>last_seen := now, status := ''online''\<rparr>)
      \<and> map fst (clients (snd (update_heartbeat cid now s))) = map fst (clients s)
      \<and> commands_queue (snd (update_heartbeat cid now s)) = commands_queue s
      \<and> max_clients (snd (update_heartbeat cid now s)) = max_clients s
      \<and> resource_threshold (snd (update_heartbeat cid now s)) = resource_threshold s
      \<and> system_resources (snd (update_heartbeat cid now s)) = system_resources s)"
proof (intro conjI impI allI)
  assume "map_of (clients s) cid = None"
  then show "update_heartbeat cid now s = (False, s)"
    by (simp add: update_heartbeat_def)
next
  let ?s0 = "ClientManager_init maxc thr :: 'cmd ClientManager"
  assume "list_all (\<lambda>x. \<not> registers cid x) ops"
  moreover have "map_of (clients ?s0) cid = None"
    by (simp add: ClientManager_init_def)
  ultimately have "map_of (clients (run ops ?s0)) cid = None"
    by (rule run_unregistered)
  then show "update_heartbeat cid now (run ops ?s0) = (False, run ops ?s0)"
    by (simp add: update_heartbeat_def)
next
  fix c assume c: "map_of (clients s) cid = Some c"
  show "fst (update_heartbeat cid now s) = True"
    using c by (simp add: update_heartbeat_def)
  show "map_of (clients (snd (update_heartbeat cid now s))) =
          (map_of (clients s))(cid \<mapsto> c\<lparr>last_seen := now, status := ''online''\<rparr>)"
    using c by (simp add: update_heartbeat_def map_of_AList_update)
  show "map fst (clients (snd (update_heartbeat cid now s))) = map fst (clients s)"
    using c by (simp add: update_heartbeat_def keys_update_present)
  show "commands_queue (snd (update_heartbeat cid now s)) = commands_queue s"
    using c by (simp add: update_heartbeat_def)
  show "max_clients (snd (update_heartbeat cid now s)) = max_clients s"
    using c by (simp add: update_heartbeat_def)
  show "resource_threshold (snd (update_heartbeat cid now s)) = resource_threshold s"
    using c by (simp add: update_heartbeat_def)
  show "system_resources (snd (update_heartbeat cid now s)) = system_resources s"
    using c by (simp add: update_heartbeat_def)
qed

theorem update_heartbeat_result_witness:
  "update_heartbeat ''ghost'' 9
      (run [Register ''c1'' ''10.0.0.1'' ''h1'' 1 2, Sweep 400000000 300]
         (ClientManager_init 50 0.8 :: nat ClientManager))
     = (False, run [Register ''c1'' ''10.0.0.1'' ''h1'' 1 2, Sweep 400000000 300]
                 (ClientManager_init 50 0.8 :: nat ClientManager))
   \<and> map_of (clients (run [Register ''c1'' ''10.0.0.1'' ''h1'' 1 2, Sweep 400000000 300]
                 (ClientManager_init 50 0.8 :: nat ClientManager))) ''ghost'' = None
   \<and> fst (update_heartbeat ''c1'' 400000009
        (run [Register ''c1'' ''10.0.0.1'' ''h1'' 1 2, Sweep 400000000 300]
           (ClientManager_init 50 0.8 :: nat ClientManager))) = True
   \<and> map_of (clients (snd (update_heartbeat ''c1'' 400000009
        (run [Register ''c1'' ''10.0.0.1'' ''h1'' 1 2, Sweep 400000000 300]
           (ClientManager_init 50 0.8 :: nat ClientManager))))) ''c1''
      = Some \<lparr>client_id = ''c1'', ip = ''10.0.0.1'', hostname = ''h1'',
              last_seen = 400000009, status = ''online'', connection_time = 2,
              resource_usage = 0, commands_processed = 0\<rparr>"
proof -
  let ?ops = "[Register ''c1'' ''10.0.0.1'' ''h1'' 1 2, Sweep 400000000 300 :: nat operation]"
  let ?s = "run ?ops (ClientManager_init 50 0.8 :: nat ClientManager)"
  let ?c = "\<lparr>client_id = ''c1'', ip = ''10.0.0.1'', hostname = ''h1'', last_seen = 1,
            status = ''offline'', connection_time = 2,
            resource_usage = 0, commands_processed = 0\<rparr>"
  have cl: "clients ?s = [(''c1'', ?c)]"
    by (simp add: register_client_def can_accept_client_def ClientManager_init_def
        active_clients_def ClientInfo_init_def cleanup_inactive_clients_def
        total_seconds_399999999)
  have never: "list_all (\<lambda>x. \<not> registers ''ghost'' x) ?ops" by simp
  have ghost: "map_of (clients ?s) ''ghost'' = None" unfolding cl by simp
  have c1: "map_of (clients ?s) ''c1'' = Some ?c" unfolding cl by simp
  from update_heartbeat_result [of ?s "''ghost''" 9 ?ops 50 "0.8"] never
  have a: "update_heartbeat ''ghost'' 9 ?s = (False, ?s)" by blast
  from update_heartbeat_result [of ?s "''c1''" 400000009 "[]" 50 "0.8"] c1
  have b: "fst (update_heartbeat ''c1'' 400000009 ?s) = True"
    and c: "map_of (clients (snd (update_heartbeat ''c1'' 400000009 ?s))) =
          (map_of (clients ?s))(''c1'' \<mapsto> ?c\<lparr>last_seen := 400000009, status := ''online''\<rparr>)"
    by blast+
  from a ghost b c show ?thesis by simp
qed

text \<open>
  C9, as the code has it. \<^verbatim>\<open>cleanup_inactive_clients\<close> keeps every record, in the same
  order; the record of a client for which \<^verbatim>\<open>total_seconds()\<close> of \<open>now - last_seen\<close>, the
  elapsed time as a double, exceeds the timeout gets status offline and is otherwise the
  same, every other record is left as it is; the command queues and the rest of the state
  are not changed; a second sweep at the same clock changes nothing; and for a timeout of
  a whole number of seconds from 0 to \<open>2^32\<close> the records set offline are exactly those
  whose elapsed time exceeds the timeout.
\<close>

theorem cleanup_inactive_clients_frame:
  "map fst (clients (cleanup_inactive_clients now t s)) = map fst (clients s)
   \<and> (\<forall>cid c. map_of (clients s) cid = Some c \<longrightarrow>
        map_of (clients (cleanup_inactive_clients now t s)) cid =
          Some (if total_seconds (now - last_seen c) > t then c\<lparr>status := ''offline''\<rparr> else c))
   \<and> commands_queue (cleanup_inactive_clients now t s) = commands_queue s
   \<and> max_clients (cleanup_inactive_clients now t s) = max_clients s
   \<and> resource_threshold (cleanup_inactive_clients now t s) = resource_threshold s
   \<and> system_resources (cleanup_inactive_clients now t s) = system_resources s
   \<and> cleanup_inactive_clients now t (cleanup_inactive_clients now t s)
       = cleanup_inactive_clients now t s
   \<and> (0 \<le> T \<and> T \<le> 4294967296 \<longrightarrow>
        (\<forall>cid c. map_of (clients s) cid = Some c \<longrightarrow>
          map_of (clients (cleanup_inactive_clients now (of_int T) s)) cid =
            Some (if T * 1000000 < now - last_seen c then c\<lparr>status := ''offline''\<rparr> else c)))"
  by (simp add: cleanup_inactive_clients_def map_of_cleanup_loop cleanup_loop_idem
      total_seconds_whole_timeout)

theorem cleanup_inactive_clients_frame_witness:
  "map_of (clients (cleanup_inactive_clients 400000000 300
      (run [Register ''c1'' ''10.0.0.1'' ''h1'' 1 2,
            Register ''c2'' ''10.0.0.2'' ''h2'' 200000000 200000001, Enqueue ''c1'' 7]
         (ClientManager_init 50 0.8 :: nat ClientManager)))) ''c1''
     = Some \<lparr>client_id = ''c1'', ip = ''10.0.0.1'', hostname = ''h1'', last_seen = 1,
             status = ''offline'', connection_time = 2,
             resource_usage = 0, commands_processed = 0\<rparr>
   \<and> map_of (clients (cleanup_inactive_clients 400000000 300
      (run [Register ''c1'' ''10.0.0.1'' ''h1'' 1 2,
            Register ''c2'' ''10.0.0.2'' ''h2'' 200000000 200000001, Enqueue ''c1'' 7]
         (ClientManager_init 50 0.8 :: nat ClientManager)))) ''c2''
     = Some \<lparr>client_id = ''c2'', ip = ''10.0.0.2'', hostname = ''h2'', last_seen = 200000000,
             status = ''online'', connection_time = 200000001,
             resource_usage = 0, commands_processed = 0\<rparr>
   \<and> commands_queue (cleanup_inactive_clients 400000000 300
      (run [Register ''c1'' ''10.0.0.1'' ''h1'' 1 2,
            Register ''c2'' ''10.0.0.2'' ''h2'' 200000000 200000001, Enqueue ''c1'' 7]
         (ClientManager_init 50 0.8 :: nat ClientManager))) = [(''c1'', [7])]"
proof -
  let ?s = "run [Register ''c1'' ''10.0.0.1'' ''h1'' 1 2,
            Register ''c2'' ''10.0.0.2'' ''h2'' 200000000 200000001, Enqueue ''c1'' 7]
         (ClientManager_init 50 0.8 :: nat ClientManager)"
  let ?c1 = "ClientInfo_init ''c1'' ''10.0.0.1'' ''h1'' 1 2"
  let ?c2 = "ClientInfo_init ''c2'' ''10.0.0.2'' ''h2'' 200000000 200000001"
  have cl: "clients ?s = [(''c1'', ?c1), (''c2'', ?c2)]"
    and q: "commands_queue ?s = [(''c1'', [7])]"
    by (simp_all add: register_client_def can_accept_client_def ClientManager_init_def
        active_clients_def ClientInfo_init_def add_command_def defaultdict_getitem_def)
  have c1: "map_of (clients ?s) ''c1'' = Some ?c1"
    and c2: "map_of (clients ?s) ''c2'' = Some ?c2"
    unfolding cl by simp_all
  have stale: "total_seconds (400000000 - last_seen ?c1) > 300"
    and fresh: "\<not> total_seconds (400000000 - last_seen ?c2) > 300"
    by (simp_all add: total_seconds_399999999 total_seconds_200000000 ClientInfo_init_def)
  note fr = cleanup_inactive_clients_frame [of 400000000 300 ?s 300]
  note each = fr [THEN conjunct2, THEN conjunct1, rule_format]
  from each [OF c1] stale
  have a: "map_of (clients (cleanup_inactive_clients 400000000 300 ?s)) ''c1''
      = Some (?c1\<lparr>status := ''offline''\<rparr>)"
    by (simp only: if_True)
  from each [OF c2] fresh
  have b: "map_of (clients (cleanup_inactive_clients 400000000 300 ?s)) ''c2'' = Some ?c2"
    by (simp only: if_False)
  have whole: "(0::int) \<le> 300 \<and> (300::int) \<le> 4294967296" by simp
  note exact = fr [THEN conjunct2, THEN conjunct2, THEN conjunct2, THEN conjunct2,
      THEN conjunct2, THEN conjunct2, THEN conjunct2, THEN mp, OF whole, rule_format]
  from exact [OF c2]
  have b': "map_of (clients (cleanup_inactive_clients 400000000 300 ?s)) ''c2'' = Some ?c2"
    by (simp add: ClientInfo_init_def)
  from fr [THEN conjunct2, THEN conjunct2, THEN conjunct1] q
  have c: "commands_queue (cleanup_inactive_clients 400000000 300 ?s) = [(''c1'', [7])]"
    by (simp only:)
  from a b b' c show ?thesis by (simp add: ClientInfo_init_def)
qed

text \<open>
  C9, as the specification has it (offline for exactly the clients whose elapsed time
  exceeds the timeout), fails where the rounding of \<^verbatim>\<open>total_seconds()\<close> matters. A client
  registered at time 0 and swept 17179869185000001 microseconds later with a timeout of
  17179869185 seconds has been silent for more than the timeout, by one microsecond; the
  elapsed time is rounded to 17179869185.0, and the client stays online.
\<close>

theorem cleanup_rounds_elapsed_time:
  "real_of_int (17179869185000001 - 0) / 1000000 > 17179869185
   \<and> map_of (clients (cleanup_inactive_clients 17179869185000001 17179869185
        (snd (register_client ''c1'' ''10.0.0.1'' ''h1'' 0 0
               (ClientManager_init 50 0.8 :: nat ClientManager))))) ''c1''
      = Some \<lparr>client_id = ''c1'', ip = ''10.0.0.1'', hostname = ''h1'', last_seen = 0,
              status = ''online'', connection_time = 0,
              resource_usage = 0, commands_processed = 0\<rparr>"
  by (simp add: register_client_def can_accept_client_def ClientManager_init_def
      active_clients_def ClientInfo_init_def cleanup_inactive_clients_def
      total_seconds_17179869185000001)

text \<open>An operation that is a registration or a heartbeat of the given identifier.\<close>

fun touches :: "string \<Rightarrow> 'cmd operation \<Rightarrow> bool" where
  "touches cid (Register cid' addr host seen conn) = (cid' = cid)"
| "touches cid (Touch cid' now) = (cid' = cid)"
| "touches cid other = False"

lemma step_untouched:
  assumes "\<not> touches cid x" and "map_of (clients s) cid = Some c"
  shows "\<exists>st. map_of (clients (step x s)) cid = Some (c\<lparr>status := st\<rparr>)"
proof (cases x)
  case (Register cid' addr host seen conn)
  with assms have "map_of (clients (step x s)) cid = Some (c\<lparr>status := status c\<rparr>)"
    by (simp add: register_client_def map_of_AList_update)
  then show ?thesis ..
next
  case (Touch cid' now)
  with assms have "map_of (clients (step x s)) cid = Some (c\<lparr>status := status c\<rparr>)"
    by (simp add: update_heartbeat_def map_of_AList_update split: option.splits)
  then show ?thesis ..
next
  case (Enqueue cid' command)
  with assms have "map_of (clients (step x s)) cid = Some (c\<lparr>status := status c\<rparr>)"
    by (simp add: add_command_def Let_def split: prod.splits)
  then show ?thesis ..
next
  case (Dequeue cid')
  with assms have "map_of (clients (step x s)) cid = Some (c\<lparr>status := status c\<rparr>)"
    by (simp add: get_command_def split: option.splits list.splits)
  then show ?thesis ..
next
  case (Sweep now t)
  with assms have "map_of (clients (step x s)) cid =
      Some (c\<lparr>status := (if total_seconds (now - last_seen c) > t then ''offline'' else status c)\<rparr>)"
    by (simp add: cleanup_inactive_clients_def map_of_cleanup_loop)
  then show ?thesis ..
next
  case (Monitor cpu mem)
  with assms have "map_of (clients (step x s)) cid = Some (c\<lparr>status := status c\<rparr>)"
    by (simp add: monitor_def)
  then show ?thesis ..
qed

lemma run_untouched:
  "list_all (\<lambda>x. \<not> touches cid x) ops \<Longrightarrow> map_of (clients s) cid = Some c
   \<Longrightarrow> \<exists>st. map_of (clients (run ops s)) cid = Some (c\<lparr>status := st\<rparr>)"
proof (induction ops arbitrary: s c)
  case Nil
  then have "map_of (clients (run [] s)) cid = Some (c\<lparr>status := status c\<rparr>)" by simp
  then show ?case ..
next
  case (Cons x xs)
  from Cons.prems have x: "\<not> touches cid x" and xs: "list_all (\<lambda>x. \<not> touches cid x) xs"
    by simp_all
  from step_untouched [OF x Cons.prems(2)]
  obtain st where st: "map_of (clients (step x s)) cid = Some (c\<lparr>status := st\<rparr>)" ..
  from Cons.IH [OF xs st]
  obtain st' where "map_of (clients (run xs (step x s))) cid = Some (c\<lparr>status := st, status := st'\<rparr>)" ..
  then have "map_of (clients (run (x # xs) s)) cid = Some (c\<lparr>status := st'\<rparr>)" by simp
  then show ?case ..
qed

text \<open>
  C7, as the code has it. After an accepted \<^verbatim>\<open>register_client\<close> of a client, and any
  operations that are neither a heartbeat nor a registration of that client, a sweep for
  which \<^verbatim>\<open>total_seconds()\<close> of the time elapsed since the registration, a double,
  exceeds the timeout leaves the client's record with status offline; that is the case
  whenever the timeout is a whole number of seconds from 0 to \<open>2^32\<close> and more than that
  many seconds have elapsed. A heartbeat after that returns True and gives the record
  status online and the new \<^verbatim>\<open>last_seen\<close>, while \<^verbatim>\<open>connection_time\<close> and the other
  fields are those of the registration, and no record is added or removed.
\<close>

theorem sweep_then_heartbeat:
  assumes "fst (register_client cid addr host seen conn s) = True"
    and "list_all (\<lambda>x. \<not> touches cid x) ops"
    and "total_seconds (now - seen) > timeout_seconds
         \<or> (timeout_seconds = of_int T \<and> 0 \<le> T \<and> T \<le> 4294967296
            \<and> T * 1000000 < now - seen)"
  shows "(let s1 = run ops (snd (register_client cid addr host seen conn s));
              s2 = cleanup_inactive_clients now timeout_seconds s1;
              r = update_heartbeat cid now' s2
          in map_of (clients s2) cid =
               Some \<lparr>client_id = cid, ip = addr, hostname = host, last_seen = seen,
                     status = ''offline'', connection_time = conn,
                     resource_usage = 0, commands_processed = 0\<rparr>
           \<and> fst r = True
           \<and> map_of (clients (snd r)) cid =
               Some \<lparr>client_id = cid, ip = addr, hostname = host, last_seen = now',
                     status = ''online'', connection_time = conn,
                     resource_usage = 0, commands_processed = 0\<rparr>
           \<and> map fst (clients (snd r)) = map fst (clients s2))"
proof -
  define c where "c = ClientInfo_init cid addr host seen conn"
  define s1 where "s1 = run ops (snd (register_client cid addr host seen conn s))"
  define s2 where "s2 = cleanup_inactive_clients now timeout_seconds s1"
  from assms(1) have "map_of (clients (snd (register_client cid addr host seen conn s))) cid = Some c"
    by (simp add: register_client_def c_def map_of_AList_update split: if_splits)
  from run_untouched [OF assms(2) this]
  obtain st where st: "map_of (clients s1) cid = Some (c\<lparr>status := st\<rparr>)"
    unfolding s1_def ..
  from assms(3) have "total_seconds (now - seen) > timeout_seconds"
    by (auto simp: total_seconds_exceeds)
  then have "total_seconds (now - last_seen (c\<lparr>status := st\<rparr>)) > timeout_seconds"
    by (simp add: c_def ClientInfo_init_def)
  with st have off: "map_of (clients s2) cid = Some (c\<lparr>status := ''offline''\<rparr>)"
    by (simp add: s2_def cleanup_inactive_clients_def map_of_cleanup_loop)
  then have r: "update_heartbeat cid now' s2 =
      (True, s2\<lparr>clients := AList.update cid (c\<lparr>last_seen := now', status := ''online''\<rparr>)
                             (clients s2)\<rparr>)"
    by (simp add: update_heartbeat_def)
  have keys: "map fst (clients (snd (update_heartbeat cid now' s2))) = map fst (clients s2)"
    unfolding r using off by (simp add: keys_update_present)
  have on: "map_of (clients (snd (update_heartbeat cid now' s2))) cid =
      Some (c\<lparr>last_seen := now', status := ''online''\<rparr>)"
    unfolding r by (simp add: map_of_AList_update)
  from off r on keys show ?thesis
    unfolding Let_def s2_def [symmetric] s1_def [symmetric]
    by (simp add: c_def ClientInfo_init_def)
qed

theorem sweep_then_heartbeat_witness:
  "fst (register_client ''c1'' ''10.0.0.1'' ''h1'' 1 2
         (ClientManager_init 50 0.8 :: nat ClientManager)) = True
   \<and> list_all (\<lambda>x. \<not> touches ''c1'' x)
        [Register ''c2'' ''10.0.0.2'' ''h2'' 3 4, Enqueue ''c1'' 7, Touch ''c2'' 5 :: nat operation]
   \<and> ((300::real) = of_int 300 \<and> (0::int) \<le> 300 \<and> (300::int) \<le> 4294967296
      \<and> (300::int) * 1000000 < 400000000 - 1)
   \<and> map_of (clients (cleanup_inactive_clients 400000000 300
        (run [Register ''c2'' ''10.0.0.2'' ''h2'' 3 4, Enqueue ''c1'' 7, Touch ''c2'' 5]
          (snd (register_client ''c1'' ''10.0.0.1'' ''h1'' 1 2
                 (ClientManager_init 50 0.8 :: nat ClientManager)))))) ''c1''
      = Some \<lparr>client_id = ''c1'', ip = ''10.0.0.1'', hostname = ''h1'', last_seen = 1,
              status = ''offline'', connection_time = 2,
              resource_usage = 0, commands_processed = 0\<rparr>
   \<and> fst (update_heartbeat ''c1'' 400000009 (cleanup_inactive_clients 400000000 300
        (run [Register ''c2'' ''10.0.0.2'' ''h2'' 3 4, Enqueue ''c1'' 7, Touch ''c2'' 5]
          (snd (register_client ''c1'' ''10.0.0.1'' ''h1'' 1 2
                 (ClientManager_init 50 0.8 :: nat ClientManager)))))) = True
   \<and> map_of (clients (snd (update_heartbeat ''c1'' 400000009
        (cleanup_inactive_clients 400000000 300
          (run [Register ''c2'' ''10.0.0.2'' ''h2'' 3 4, Enqueue ''c1'' 7, Touch ''c2'' 5]
            (snd (register_client ''c1'' ''10.0.0.1'' ''h1'' 1 2
                   (ClientManager_init 50 0.8 :: nat ClientManager)))))))) ''c1''
      = Some \<lparr>client_id = ''c1'', ip = ''10.0.0.1'', hostname = ''h1'', last_seen = 400000009,
              status = ''online'', connection_time = 2,
              resource_usage = 0, commands_processed = 0\<rparr>"
proof -
  let ?s0 = "ClientManager_init 50 0.8 :: nat ClientManager"
  let ?ops = "[Register ''c2'' ''10.0.0.2'' ''h2'' 3 4, Enqueue ''c1'' 7, Touch ''c2'' 5
               :: nat operation]"
  have h1: "fst (register_client ''c1'' ''10.0.0.1'' ''h1'' 1 2 ?s0) = True"
    by (simp add: register_client_def can_accept_client_def ClientManager_init_def
        active_clients_def)
  have h2: "list_all (\<lambda>x. \<not> touches ''c1'' x) ?ops" by simp
  have h3: "(300::real) = of_int 300 \<and> (0::int) \<le> 300 \<and> (300::int) \<le> 4294967296
      \<and> (300::int) * 1000000 < 400000000 - 1"
    by simp
  note t = sweep_then_heartbeat [OF h1 h2 disjI2 [OF h3], of 400000009, unfolded Let_def]
  from h1 h2 h3 t [THEN conjunct1] t [THEN conjunct2, THEN conjunct1]
    t [THEN conjunct2, THEN conjunct2, THEN conjunct1]
  show ?thesis by blast
qed

text \<open>
  C7, as the specification has it (offline after no heartbeat for more than the timeout),
  fails where the rounding of \<^verbatim>\<open>total_seconds()\<close> matters. With the timeout the double
  written \<^verbatim>\<open>0.3\<close>, which is below three tenths, a client registered at time 0 and swept
  300000 microseconds later has been silent for more than the timeout; the elapsed time
  is rounded to that same double, and the client stays online.
\<close>

theorem sweep_rounds_elapsed_time:
  "real_of_int (300000 - 0) / 1000000 > (5404319552844595 / 18014398509481984 :: real)
   \<and> map_of (clients (cleanup_inactive_clients 300000 (5404319552844595 / 18014398509481984)
        (snd (register_client ''c1'' ''10.0.0.1'' ''h1'' 0 0
               (ClientManager_init 50 0.8 :: nat ClientManager))))) ''c1''
      = Some \<lparr>client_id = ''c1'', ip = ''10.0.0.1'', hostname = ''h1'', last_seen = 0,
              status = ''online'', connection_time = 0,
              resource_usage = 0, commands_processed = 0\<rparr>"
  by (simp add: register_client_def can_accept_client_def ClientManager_init_def
      active_clients_def ClientInfo_init_def cleanup_inactive_clients_def
      total_seconds_300000)

section \<open>Command queues\<close>

lemma queue_of_add_command:
  "queue_of cid' (add_command cid command s) =
     (if cid' = cid \<and> map_of (clients s) cid \<noteq> None \<and> length (queue_of cid s) < 10
      then queue_of cid s @ [command] else queue_of cid' s)"
  by (auto simp: add_command_def defaultdict_getitem_def queue_of_def map_of_AList_update
      split: option.splits)

lemma add_command_full: "\<not> length (queue_of cid s) < 10 \<Longrightarrow> add_command cid command s = s"
  by (auto simp: add_command_def defaultdict_getitem_def queue_of_def split: option.splits)

lemma add_command_unknown: "map_of (clients s) cid = None \<Longrightarrow> add_command cid command s = s"
  by (simp add: add_command_def)

lemma add_command_clients [simp]: "clients (add_command cid command s) = clients s"
  by (auto simp: add_command_def defaultdict_getitem_def split: option.splits)

lemma get_command_fst:
  "fst (get_command cid s) = (case queue_of cid s of [] \<Rightarrow> None | c # q \<Rightarrow> Some c)"
  by (simp add: get_command_def queue_of_def split: option.splits list.splits)

lemma queue_of_get_command:
  "queue_of cid' (snd (get_command cid s)) =
     (if cid' = cid then tl (queue_of cid s) else queue_of cid' s)"
  by (auto simp: get_command_def queue_of_def map_of_AList_update split: option.splits list.splits)

lemma get_command_empty: "queue_of cid s = [] \<Longrightarrow> get_command cid s = (None, s)"
  by (simp add: get_command_def queue_of_def split: option.splits list.splits)

lemma get_command_clients [simp]: "clients (snd (get_command cid s)) = clients s"
  by (simp add: get_command_def split: option.splits list.splits)

text \<open>Every stored queue holds at most 10 commands.\<close>

definition queues_bounded :: "'cmd ClientManager \<Rightarrow> bool" where
  "queues_bounded s = list_all (\<lambda>(cid, q). length q \<le> 10) (commands_queue s)"

lemma list_all_update:
  "list_all P al \<Longrightarrow> P (k, v) \<Longrightarrow> list_all P (AList.update k v al)"
  by (induction al) auto

lemma list_all_map_of: "list_all P al \<Longrightarrow> map_of al k = Some v \<Longrightarrow> P (k, v)"
  by (induction al) (auto split: if_splits)

lemma queues_bounded_queue_of: "queues_bounded s \<Longrightarrow> length (queue_of cid s) \<le> 10"
  by (auto simp: queues_bounded_def queue_of_def split: option.splits dest: list_all_map_of)

lemma add_command_bounded:
  assumes "queues_bounded s"
  shows "queues_bounded (add_command cid command s)"
proof (cases "map_of (commands_queue s) cid")
  case None
  with assms show ?thesis
    by (simp add: add_command_def defaultdict_getitem_def queues_bounded_def
        map_of_AList_update list_all_update)
next
  case (Some q)
  with assms show ?thesis
    by (simp add: add_command_def defaultdict_getitem_def queues_bounded_def list_all_update)
qed

lemma get_command_bounded:
  assumes "queues_bounded s"
  shows "queues_bounded (snd (get_command cid s))"
proof (cases "map_of (commands_queue s) cid")
  case None
  with assms show ?thesis by (simp add: get_command_def)
next
  case (Some q)
  with assms have "length q \<le> 10"
    by (auto simp: queues_bounded_def dest: list_all_map_of)
  with assms Some show ?thesis
    by (cases q) (simp_all add: get_command_def queues_bounded_def list_all_update)
qed

lemma step_bounded: "queues_bounded s \<Longrightarrow> queues_bounded (step x s)"
proof (cases x)
  case (Enqueue cid command)
  assume "queues_bounded s"
  with Enqueue show ?thesis by (simp add: add_command_bounded)
next
  case (Dequeue cid)
  assume "queues_bounded s"
  with Dequeue show ?thesis by (simp add: get_command_bounded)
qed (simp_all add: queues_bounded_def register_client_def update_heartbeat_def
    cleanup_inactive_clients_def monitor_def split: option.splits)

lemma run_bounded: "queues_bounded s \<Longrightarrow> queues_bounded (run ops s)"
  by (induction ops arbitrary: s) (simp_all add: step_bounded)

text \<open>
  C5. After any sequence of operations from the empty registry every stored queue, and
  so the queue of every client, holds at most 10 commands. \<^verbatim>\<open>add_command\<close> appends
  the command when the client is known and its queue is shorter than 10; when the queue
  is not shorter than 10 the command is dropped and the state is left as it is.
\<close>

theorem queue_never_exceeds_bound:
  "queues_bounded (run ops (ClientManager_init maxc thr :: 'cmd ClientManager))
   \<and> length (queue_of cid (run ops (ClientManager_init maxc thr :: 'cmd ClientManager))) \<le> 10
   \<and> (map_of (clients s) cid \<noteq> None \<and> length (queue_of cid s) < 10 \<longrightarrow>
        queue_of cid (add_command cid command s) = queue_of cid s @ [command])
   \<and> (\<not> length (queue_of cid s) < 10 \<longrightarrow> add_command cid command s = s)"
proof -
  have "queues_bounded (ClientManager_init maxc thr :: 'cmd ClientManager)"
    by (simp add: queues_bounded_def ClientManager_init_def)
  then have "queues_bounded (run ops (ClientManager_init maxc thr :: 'cmd ClientManager))"
    by (rule run_bounded)
  then show ?thesis
    by (simp add: queues_bounded_queue_of queue_of_add_command add_command_full)
qed

theorem queue_never_exceeds_bound_witness:
  "queues_bounded
     (run (Register ''c1'' ''10.0.0.1'' ''h1'' 1 2
           # map (Enqueue ''c1'') [1, 2, 3, 4, 5, 6, 7, 8, 9, 10, 11, 12])
        (ClientManager_init 50 0.8 :: nat ClientManager))
   \<and> queue_of ''c1''
       (run (Register ''c1'' ''10.0.0.1'' ''h1'' 1 2
             # map (Enqueue ''c1'') [1, 2, 3, 4, 5, 6, 7, 8, 9, 10, 11, 12])
          (ClientManager_init 50 0.8 :: nat ClientManager))
      = [1, 2, 3, 4, 5, 6, 7, 8, 9, 10]
   \<and> add_command ''c1'' 13
       (run (Register ''c1'' ''10.0.0.1'' ''h1'' 1 2
             # map (Enqueue ''c1'') [1, 2, 3, 4, 5, 6, 7, 8, 9, 10, 11, 12])
          (ClientManager_init 50 0.8 :: nat ClientManager))
      = run (Register ''c1'' ''10.0.0.1'' ''h1'' 1 2
             # map (Enqueue ''c1'') [1, 2, 3, 4, 5, 6, 7, 8, 9, 10, 11, 12])
          (ClientManager_init 50 0.8 :: nat ClientManager)
   \<and> queue_of ''c1'' (add_command ''c1'' 5
        (run [Register ''c1'' ''10.0.0.1'' ''h1'' 1 2]
           (ClientManager_init 50 0.8 :: nat ClientManager))) = [5]"
proof -
  let ?s0 = "ClientManager_init 50 0.8 :: nat ClientManager"
  let ?ops = "Register ''c1'' ''10.0.0.1'' ''h1'' 1 2
              # map (Enqueue ''c1'') [1, 2, 3, 4, 5, 6, 7, 8, 9, 10, 11, 12 :: nat]"
  let ?s1 = "run [Register ''c1'' ''10.0.0.1'' ''h1'' 1 2] ?s0"
  have s1: "?s1 = ?s0\<lparr>clients := [(''c1'', ClientInfo_init ''c1'' ''10.0.0.1'' ''h1'' 1 2)]\<rparr>"
    by (simp add: register_client_def can_accept_client_def ClientManager_init_def
        active_clients_def)
  have q: "queue_of ''c1'' (run ?ops ?s0) = [1, 2, 3, 4, 5, 6, 7, 8, 9, 10]"
    by (simp add: register_client_def can_accept_client_def ClientManager_init_def
        active_clients_def add_command_def defaultdict_getitem_def queue_of_def)
  have known: "map_of (clients ?s1) ''c1'' \<noteq> None \<and> length (queue_of ''c1'' ?s1) < 10"
    unfolding s1 by (simp add: ClientManager_init_def queue_of_def)
  from q have full: "\<not> length (queue_of ''c1'' (run ?ops ?s0)) < 10" by simp
  note t = queue_never_exceeds_bound [of ?ops 50 "0.8" "''c1''" ?s1 5]
  note u = queue_never_exceeds_bound [of ?ops 50 "0.8" "''c1''" "run ?ops ?s0" 13]
  from t have a: "queues_bounded (run ?ops ?s0)" by (rule conjunct1)
  from t [THEN conjunct2, THEN conjunct2, THEN conjunct1] known
  have b: "queue_of ''c1'' (add_command ''c1'' 5 ?s1) = queue_of ''c1'' ?s1 @ [5]" by (rule mp)
  have e: "queue_of ''c1'' ?s1 = []"
    unfolding s1 by (simp add: ClientManager_init_def queue_of_def)
  from u [THEN conjunct2, THEN conjunct2, THEN conjunct2] full
  have c: "add_command ''c1'' 13 (run ?ops ?s0) = run ?ops ?s0" by (rule mp)
  from b e have b': "queue_of ''c1'' (add_command ''c1'' 5 ?s1) = [5]" by simp
  from a q c b' show ?thesis by (intro conjI)
qed

text \<open>
  C6. For a known client whose queue is empty, \<^verbatim>\<open>add_command\<close> of a command followed
  by \<^verbatim>\<open>get_command\<close> returns that command; a second \<^verbatim>\<open>get_command\<close>, now on the
  empty queue, returns \<^verbatim>\<open>None\<close> and leaves the state as it is.
\<close>

theorem enqueue_dequeue_roundtrip:
  assumes "map_of (clients s) cid \<noteq> None" and "queue_of cid s = []"
  shows "fst (get_command cid (add_command cid command s)) = Some command
    \<and> get_command cid (snd (get_command cid (add_command cid command s)))
       = (None, snd (get_command cid (add_command cid command s)))"
proof -
  from assms have q: "queue_of cid (add_command cid command s) = [command]"
    by (simp add: queue_of_add_command)
  then have first: "fst (get_command cid (add_command cid command s)) = Some command"
    by (simp add: get_command_fst)
  from q have "queue_of cid (snd (get_command cid (add_command cid command s))) = []"
    by (simp add: queue_of_get_command)
  then have "get_command cid (snd (get_command cid (add_command cid command s)))
       = (None, snd (get_command cid (add_command cid command s)))"
    by (rule get_command_empty)
  with first show ?thesis ..
qed

theorem enqueue_dequeue_roundtrip_witness:
  "map_of (clients (snd (register_client ''c1'' ''10.0.0.1'' ''h1'' 1 2
        (ClientManager_init 50 0.8 :: string ClientManager)))) ''c1'' \<noteq> None
   \<and> queue_of ''c1'' (snd (register_client ''c1'' ''10.0.0.1'' ''h1'' 1 2
        (ClientManager_init 50 0.8 :: string ClientManager))) = []
   \<and> fst (get_command ''c1'' (add_command ''c1'' ''screenshot''
        (snd (register_client ''c1'' ''10.0.0.1'' ''h1'' 1 2
               (ClientManager_init 50 0.8 :: string ClientManager))))) = Some ''screenshot''
   \<and> fst (get_command ''c1'' (snd (get_command ''c1'' (add_command ''c1'' ''screenshot''
        (snd (register_client ''c1'' ''10.0.0.1'' ''h1'' 1 2
               (ClientManager_init 50 0.8 :: string ClientManager))))))) = None"
proof -
  let ?s1 = "snd (register_client ''c1'' ''10.0.0.1'' ''h1'' 1 2
               (ClientManager_init 50 0.8 :: string ClientManager))"
  have s1: "?s1 = (ClientManager_init 50 0.8)
      \<lparr>clients := [(''c1'', ClientInfo_init ''c1'' ''10.0.0.1'' ''h1'' 1 2)]\<rparr>"
    by (simp add: register_client_def can_accept_client_def ClientManager_init_def
        active_clients_def)
  have h1: "map_of (clients ?s1) ''c1'' \<noteq> None"
    unfolding s1 by simp
  have h2: "queue_of ''c1'' ?s1 = []"
    unfolding s1 by (simp add: queue_of_def ClientManager_init_def)
  note t = enqueue_dequeue_roundtrip [OF h1 h2, of "''screenshot''"]
  from t [THEN conjunct2]
  have "fst (get_command ''c1'' (snd (get_command ''c1''
          (add_command ''c1'' ''screenshot'' ?s1)))) = None"
    by simp
  with h1 h2 t [THEN conjunct1] show ?thesis by (intro conjI)
qed

text \<open>Enqueueing a list of commands for one client, and polling a number of times.\<close>

fun add_commands :: "string \<Rightarrow> 'cmd list \<Rightarrow> 'cmd ClientManager \<Rightarrow> 'cmd ClientManager" where
  "add_commands cid [] s = s"
| "add_commands cid (command # rest) s = add_commands cid rest (add_command cid command s)"

fun get_commands :: "nat \<Rightarrow> string \<Rightarrow> 'cmd ClientManager \<Rightarrow> 'cmd option list" where
  "get_commands 0 cid s = []"
| "get_commands (Suc n) cid s =
     fst (get_command cid s) # get_commands n cid (snd (get_command cid s))"

lemma add_commands_known:
  "map_of (clients s) cid \<noteq> None \<Longrightarrow> length (queue_of cid s) \<le> 10
   \<Longrightarrow> queue_of cid (add_commands cid cs s) = take 10 (queue_of cid s @ cs)"
proof (induction cs arbitrary: s)
  case Nil
  then show ?case by simp
next
  case (Cons c cs)
  show ?case
  proof (cases "length (queue_of cid s) < 10")
    case True
    with Cons.prems have "queue_of cid (add_command cid c s) = queue_of cid s @ [c]"
      by (simp add: queue_of_add_command)
    moreover from this True have "length (queue_of cid (add_command cid c s)) \<le> 10" by simp
    moreover from Cons.prems have "map_of (clients (add_command cid c s)) cid \<noteq> None" by simp
    ultimately show ?thesis using Cons.IH [of "add_command cid c s"] by simp
  next
    case False
    then have "add_command cid c s = s" by (rule add_command_full)
    moreover from False Cons.prems have "length (queue_of cid s) = 10" by simp
    ultimately show ?thesis using Cons.IH [of s] Cons.prems by simp
  qed
qed

lemma add_commands_full:
  "\<not> length (queue_of cid s) < 10 \<Longrightarrow> add_commands cid cs s = s"
  by (induction cs) (simp_all add: add_command_full)

lemma get_commands_queue:
  "get_commands n cid s =
     map Some (take n (queue_of cid s)) @ replicate (n - length (queue_of cid s)) None"
proof (induction n arbitrary: s)
  case 0
  show ?case by simp
next
  case (Suc n)
  show ?case
  proof (cases "queue_of cid s")
    case Nil
    then have "get_command cid s = (None, s)" by (rule get_command_empty)
    with Nil Suc.IH [of s] show ?thesis by (simp add: replicate_append_same)
  next
    case (Cons c q)
    then have "fst (get_command cid s) = Some c"
      and "queue_of cid (snd (get_command cid s)) = q"
      by (simp_all add: get_command_fst queue_of_get_command)
    with Cons Suc.IH [of "snd (get_command cid s)"] show ?thesis by simp
  qed
qed

text \<open>
  C4, as the code has it. For a known client, enqueueing a list of commands onto a queue
  of at most 10 entries leaves the first 10 entries of the old queue followed by the new
  commands: a command that arrives while the queue holds 10 entries is dropped, so the
  commands lost are the newest ones and the oldest are kept. At the bound further
  commands leave the state as it is; once 10 or more commands are there the length stays
  10; and polling yields the kept entries, oldest first, then \<^verbatim>\<open>None\<close>.
\<close>

theorem queue_overflow_drops_newest:
  assumes "map_of (clients s) cid \<noteq> None" and "length (queue_of cid s) \<le> 10"
  shows "queue_of cid (add_commands cid cs s) = take 10 (queue_of cid s @ cs)
    \<and> (length (queue_of cid s) = 10 \<longrightarrow> add_commands cid cs s = s)
    \<and> (10 \<le> length (queue_of cid s) + length cs \<longrightarrow>
         length (queue_of cid (add_commands cid cs s)) = 10)
    \<and> get_commands n cid (add_commands cid cs s) =
         map Some (take n (take 10 (queue_of cid s @ cs)))
         @ replicate (n - min 10 (length (queue_of cid s) + length cs)) None"
proof -
  from assms have q: "queue_of cid (add_commands cid cs s) = take 10 (queue_of cid s @ cs)"
    by (rule add_commands_known)
  have "add_commands cid cs s = s" if "length (queue_of cid s) = 10"
    using that by (simp add: add_commands_full)
  moreover have "length (queue_of cid (add_commands cid cs s)) = 10"
    if "10 \<le> length (queue_of cid s) + length cs"
    using that by (simp add: q)
  moreover have "get_commands n cid (add_commands cid cs s) =
         map Some (take n (take 10 (queue_of cid s @ cs)))
         @ replicate (n - min 10 (length (queue_of cid s) + length cs)) None"
    by (simp add: get_commands_queue q min.commute)
  ultimately show ?thesis using q by blast
qed

theorem queue_overflow_drops_newest_witness:
  "map_of (clients (snd (register_client ''c1'' ''10.0.0.1'' ''h1'' 1 2
        (ClientManager_init 50 0.8 :: nat ClientManager)))) ''c1'' \<noteq> None
   \<and> length (queue_of ''c1'' (snd (register_client ''c1'' ''10.0.0.1'' ''h1'' 1 2
        (ClientManager_init 50 0.8 :: nat ClientManager)))) \<le> 10
   \<and> queue_of ''c1'' (add_commands ''c1'' [1, 2, 3, 4, 5, 6, 7, 8, 9, 10, 11, 12, 13, 14, 15]
        (snd (register_client ''c1'' ''10.0.0.1'' ''h1'' 1 2
               (ClientManager_init 50 0.8 :: nat ClientManager))))
      = [1, 2, 3, 4, 5, 6, 7, 8, 9, 10]
   \<and> get_commands 11 ''c1''
        (add_commands ''c1'' [1, 2, 3, 4, 5, 6, 7, 8, 9, 10, 11, 12, 13, 14, 15]
          (snd (register_client ''c1'' ''10.0.0.1'' ''h1'' 1 2
                 (ClientManager_init 50 0.8 :: nat ClientManager))))
      = [Some 1, Some 2, Some 3, Some 4, Some 5, Some 6, Some 7, Some 8, Some 9, Some 10, None]"
proof -
  let ?s1 = "snd (register_client ''c1'' ''10.0.0.1'' ''h1'' 1 2
               (ClientManager_init 50 0.8 :: nat ClientManager))"
  let ?cs = "[1, 2, 3, 4, 5, 6, 7, 8, 9, 10, 11, 12, 13, 14, 15 :: nat]"
  have s1: "?s1 = (ClientManager_init 50 0.8)
      \<lparr>clients := [(''c1'', ClientInfo_init ''c1'' ''10.0.0.1'' ''h1'' 1 2)]\<rparr>"
    by (simp add: register_client_def can_accept_client_def ClientManager_init_def
        active_clients_def)
  have h1: "map_of (clients ?s1) ''c1'' \<noteq> None"
    unfolding s1 by simp
  have e: "queue_of ''c1'' ?s1 = []"
    unfolding s1 by (simp add: queue_of_def ClientManager_init_def)
  then have h2: "length (queue_of ''c1'' ?s1) \<le> 10" by simp
  note t = queue_overflow_drops_newest [OF h1 h2, of ?cs 11]
  from t [THEN conjunct1] e
  have a: "queue_of ''c1'' (add_commands ''c1'' ?cs ?s1) = [1, 2, 3, 4, 5, 6, 7, 8, 9, 10]"
    by simp
  from t [THEN conjunct2, THEN conjunct2, THEN conjunct2] e
  have b: "get_commands 11 ''c1'' (add_commands ''c1'' ?cs ?s1)
      = [Some 1, Some 2, Some 3, Some 4, Some 5, Some 6, Some 7, Some 8, Some 9, Some 10, None]"
    by simp
  from h1 h2 a b show ?thesis by (intro conjI)
qed

text \<open>
  C4, as the specification has it (the commands lost are the oldest), fails. Eleven commands for
  one client: the first command is still the one delivered first, and the eleventh is the
  one that is missing.
\<close>

theorem queue_overflow_keeps_oldest:
  "queue_of ''c1'' (add_commands ''c1'' [1, 2, 3, 4, 5, 6, 7, 8, 9, 10, 11]
        (snd (register_client ''c1'' ''10.0.0.1'' ''h1'' 1 2
               (ClientManager_init 50 0.8 :: nat ClientManager))))
      = [1, 2, 3, 4, 5, 6, 7, 8, 9, 10]
   \<and> fst (get_command ''c1'' (add_commands ''c1'' [1, 2, 3, 4, 5, 6, 7, 8, 9, 10, 11]
        (snd (register_client ''c1'' ''10.0.0.1'' ''h1'' 1 2
               (ClientManager_init 50 0.8 :: nat ClientManager))))) = Some 1
   \<and> 11 \<notin> set (queue_of ''c1'' (add_commands ''c1'' [1, 2, 3, 4, 5, 6, 7, 8, 9, 10, 11]
        (snd (register_client ''c1'' ''10.0.0.1'' ''h1'' 1 2
               (ClientManager_init 50 0.8 :: nat ClientManager)))))"
proof -
  let ?s1 = "snd (register_client ''c1'' ''10.0.0.1'' ''h1'' 1 2
               (ClientManager_init 50 0.8 :: nat ClientManager))"
  have q: "queue_of ''c1'' (add_commands ''c1'' [1, 2, 3, 4, 5, 6, 7, 8, 9, 10, 11] ?s1)
      = [1, 2, 3, 4, 5, 6, 7, 8, 9, 10]"
    by (simp add: register_client_def can_accept_client_def ClientManager_init_def
        active_clients_def add_command_def defaultdict_getitem_def queue_of_def)
  have g: "fst (get_command ''c1''
        (add_commands ''c1'' [1, 2, 3, 4, 5, 6, 7, 8, 9, 10, 11] ?s1)) = Some 1"
    by (simp add: register_client_def can_accept_client_def ClientManager_init_def
        active_clients_def add_command_def defaultdict_getitem_def get_command_def)
  from q have "11 \<notin> set (queue_of ''c1''
        (add_commands ''c1'' [1, 2, 3, 4, 5, 6, 7, 8, 9, 10, 11] ?s1))"
    by simp
  with q g show ?thesis by (intro conjI)
qed

section \<open>The rate limiter\<close>

text \<open>A sequence of calls of \<^verbatim>\<open>allow_connection\<close> at the given times, with their results.\<close>

fun allow_connections :: "real list \<Rightarrow> ConnectionRateLimiter \<Rightarrow> bool list" where
  "allow_connections [] r = []"
| "allow_connections (t # ts) r =
     fst (allow_connection t r) # allow_connections ts (snd (allow_connection t r))"

text \<open>
  The limiter in the words of the specification, for comparison with the code: it prunes
  the timestamps older than 60 seconds, so a timestamp of age exactly 60 stays. The age is
  computed as in the code.
\<close>

definition allow_connection_spec ::
  "real \<Rightarrow> ConnectionRateLimiter \<Rightarrow> bool \<times> ConnectionRateLimiter" where
  "allow_connection_spec current_time r =
     (let kept = filter (\<lambda>t. \<not> float_sub current_time t > 60) (connection_times r) in
      if int (length kept) < max_connections r
      then (True, r\<lparr>connection_times := kept @ [current_time]\<rparr>)
      else (False, r\<lparr>connection_times := kept\<rparr>))"

lemma float_sub_small:
  "float_sub 1 0 = 1" "float_sub 2 0 = 2" "float_sub 2 1 = 1"
  "float_sub 3 0 = 3" "float_sub 3 1 = 2" "float_sub 3 2 = 1"
  by (simp_all add: float_sub_def float_eval)

lemma float_sub_60: "float_sub 60 0 = 60" "float_sub 64 0 = 64" "float_sub 60 30 = 30"
  by (simp_all add: float_sub_def float_eval)

text \<open>The doubles written \<^verbatim>\<open>60.3\<close> and \<^verbatim>\<open>0.3\<close>: their difference is rounded to 60.\<close>

lemma float_sub_603_03:
  "float_sub (4243235273913139 / 70368744177664) (5404319552844595 / 18014398509481984) = 60"
  by (simp add: float_sub_def float_eval)

lemma allow_connections_scenario:
  assumes "float_sub t2 t1 < 60"
    and "float_sub t3 t1 < 60" "float_sub t3 t2 < 60"
    and "float_sub t4 t1 < 60" "float_sub t4 t2 < 60" "float_sub t4 t3 < 60"
    and "\<not> float_sub t5 t1 < 60"
  shows "allow_connections [t1, t2, t3, t4, t5] (ConnectionRateLimiter_init 3)
        = [True, True, True, False, True]"
proof -
  let ?r0 = "ConnectionRateLimiter_init 3"
  let ?r1 = "\<lparr>connection_times = [t1], max_connections = 3\<rparr>"
  let ?r2 = "\<lparr>connection_times = [t1, t2], max_connections = 3\<rparr>"
  let ?r3 = "\<lparr>connection_times = [t1, t2, t3], max_connections = 3\<rparr>"
  have c1: "allow_connection t1 ?r0 = (True, ?r1)"
    by (simp add: allow_connection_def ConnectionRateLimiter_init_def)
  from assms(1) have c2: "allow_connection t2 ?r1 = (True, ?r2)"
    by (simp add: allow_connection_def)
  from assms(2,3) have c3: "allow_connection t3 ?r2 = (True, ?r3)"
    by (simp add: allow_connection_def)
  from assms(4,5,6) have c4: "allow_connection t4 ?r3 = (False, ?r3)"
    by (simp add: allow_connection_def)
  from assms(7) have c5: "fst (allow_connection t5 ?r3) = True"
    by (simp add: allow_connection_def Let_def)
  from c1 c2 c3 c4 c5 show ?thesis by simp
qed

text \<open>
  C8, as the code has it. \<^verbatim>\<open>allow_connection\<close> keeps exactly the recorded timestamps
  \<open>t\<close> whose age, the float difference \<open>now - t\<close>, is below 60, so it prunes those that
  are 60 seconds old or older; it returns True, recording the current time after the kept
  ones, when fewer than \<^verbatim>\<open>max_connections\<close> are kept, and returns False without
  recording otherwise. With a maximum of 3, three calls and a fourth, each at an age below
  60 from the earlier ones, give True, True, True, False, and a later call at an age of
  60 or more from the first gives True; that is the case when the four calls lie within
  59 seconds and the fifth comes 61 seconds or more after the first.
\<close>

theorem allow_connection_window:
  "fst (allow_connection now r) =
     (int (length (filter (\<lambda>t. float_sub now t < 60) (connection_times r))) < max_connections r)
   \<and> connection_times (snd (allow_connection now r)) =
       filter (\<lambda>t. float_sub now t < 60) (connection_times r)
       @ (if fst (allow_connection now r) then [now] else [])
   \<and> max_connections (snd (allow_connection now r)) = max_connections r
   \<and> (float_sub t2 t1 < 60 \<and> float_sub t3 t1 < 60 \<and> float_sub t3 t2 < 60
      \<and> float_sub t4 t1 < 60 \<and> float_sub t4 t2 < 60 \<and> float_sub t4 t3 < 60
      \<and> \<not> float_sub t5 t1 < 60 \<longrightarrow>
        allow_connections [t1, t2, t3, t4, t5] (ConnectionRateLimiter_init 3)
        = [True, True, True, False, True])
   \<and> (t1 \<le> t2 \<and> t2 \<le> t3 \<and> t3 \<le> t4 \<and> t4 - t1 \<le> 59 \<and> 61 \<le> t5 - t1 \<longrightarrow>
        allow_connections [t1, t2, t3, t4, t5] (ConnectionRateLimiter_init 3)
        = [True, True, True, False, True])"
proof (intro conjI impI)
  show "fst (allow_connection now r) =
     (int (length (filter (\<lambda>t. float_sub now t < 60) (connection_times r))) < max_connections r)"
    by (simp add: allow_connection_def Let_def)
  show "connection_times (snd (allow_connection now r)) =
       filter (\<lambda>t. float_sub now t < 60) (connection_times r)
       @ (if fst (allow_connection now r) then [now] else [])"
    by (simp add: allow_connection_def Let_def)
  show "max_connections (snd (allow_connection now r)) = max_connections r"
    by (simp add: allow_connection_def Let_def)
next
  assume "float_sub t2 t1 < 60 \<and> float_sub t3 t1 < 60 \<and> float_sub t3 t2 < 60
      \<and> float_sub t4 t1 < 60 \<and> float_sub t4 t2 < 60 \<and> float_sub t4 t3 < 60
      \<and> \<not> float_sub t5 t1 < 60"
  then show "allow_connections [t1, t2, t3, t4, t5] (ConnectionRateLimiter_init 3)
        = [True, True, True, False, True]"
    by (intro allow_connections_scenario) simp_all
next
  assume h: "t1 \<le> t2 \<and> t2 \<le> t3 \<and> t3 \<le> t4 \<and> t4 - t1 \<le> 59 \<and> 61 \<le> t5 - t1"
  show "allow_connections [t1, t2, t3, t4, t5] (ConnectionRateLimiter_init 3)
        = [True, True, True, False, True]"
  proof (rule allow_connections_scenario)
    from h show "float_sub t2 t1 < 60" by (intro float_sub_below) linarith+
    from h show "float_sub t3 t1 < 60" by (intro float_sub_below) linarith+
    from h show "float_sub t3 t2 < 60" by (intro float_sub_below) linarith+
    from h show "float_sub t4 t1 < 60" by (intro float_sub_below) linarith+
    from h show "float_sub t4 t2 < 60" by (intro float_sub_below) linarith+
    from h show "float_sub t4 t3 < 60" by (intro float_sub_below) linarith+
    from h show "\<not> float_sub t5 t1 < 60" by (intro float_sub_above) linarith
  qed
qed

theorem allow_connection_window_witness:
  "(float_sub 1 0 < 60 \<and> float_sub 2 0 < 60 \<and> float_sub 2 1 < 60
      \<and> float_sub 3 0 < 60 \<and> float_sub 3 1 < 60 \<and> float_sub 3 2 < 60
      \<and> \<not> float_sub 64 0 < 60)
   \<and> ((0::real) \<le> 1 \<and> (1::real) \<le> 2 \<and> (2::real) \<le> 3 \<and> (3::real) - 0 \<le> 59
      \<and> (61::real) \<le> 64 - 0)
   \<and> allow_connections [0, 1, 2, 3, 64] (ConnectionRateLimiter_init 3)
      = [True, True, True, False, True]
   \<and> fst (allow_connection 60 \<lparr>connection_times = [0, 30], max_connections = 2\<rparr>) = True
   \<and> connection_times (snd (allow_connection 60
        \<lparr>connection_times = [0, 30], max_connections = 2\<rparr>)) = [30, 60]
   \<and> fst (allow_connection (4243235273913139 / 70368744177664)
        \<lparr>connection_times = [5404319552844595 / 18014398509481984], max_connections = 1\<rparr>)
      = True"
proof -
  have h: "float_sub 1 0 < 60 \<and> float_sub 2 0 < 60 \<and> float_sub 2 1 < 60
      \<and> float_sub 3 0 < 60 \<and> float_sub 3 1 < 60 \<and> float_sub 3 2 < 60
      \<and> \<not> float_sub 64 0 < 60"
    by (simp add: float_sub_small float_sub_60)
  have g: "(0::real) \<le> 1 \<and> (1::real) \<le> 2 \<and> (2::real) \<le> 3 \<and> (3::real) - 0 \<le> 59
      \<and> (61::real) \<le> 64 - 0"
    by simp
  note t = allow_connection_window [of 60 "\<lparr>connection_times = [0, 30], max_connections = 2\<rparr>"
      1 0 2 3 64]
  note u = allow_connection_window [of "4243235273913139 / 70368744177664"
      "\<lparr>connection_times = [5404319552844595 / 18014398509481984], max_connections = 1\<rparr>"]
  from t [THEN conjunct2, THEN conjunct2, THEN conjunct2, THEN conjunct1] h
  have a: "allow_connections [0, 1, 2, 3, 64] (ConnectionRateLimiter_init 3)
      = [True, True, True, False, True]"
    by (rule mp)
  from t [THEN conjunct2, THEN conjunct2, THEN conjunct2, THEN conjunct2] g
  have a': "allow_connections [0, 1, 2, 3, 64] (ConnectionRateLimiter_init 3)
      = [True, True, True, False, True]"
    by (rule mp)
  from t [THEN conjunct1]
  have b: "fst (allow_connection 60 \<lparr>connection_times = [0, 30], max_connections = 2\<rparr>) = True"
    by (simp add: float_sub_60)
  from t [THEN conjunct2, THEN conjunct1] b
  have c: "connection_times (snd (allow_connection 60
        \<lparr>connection_times = [0, 30], max_connections = 2\<rparr>)) = [30, 60]"
    by (simp add: float_sub_60)
  from u [THEN conjunct1]
  have d: "fst (allow_connection (4243235273913139 / 70368744177664)
        \<lparr>connection_times = [5404319552844595 / 18014398509481984], max_connections = 1\<rparr>)
      = True"
    by (simp add: float_sub_603_03)
  from h g a a' b c d show ?thesis by blast
qed

text \<open>
  C8, as the specification has it (the timestamps older than 60 seconds are pruned),
  fails at the boundary. With a maximum of 1, after a call at time 0 a call at time 60
  finds a timestamp whose age is 60, not more: the code prunes it and returns True, where
  the limiter of the specification keeps it and returns False.
\<close>

theorem allow_connection_boundary:
  "\<not> float_sub 60 0 > 60
   \<and> allow_connection 60 (snd (allow_connection 0 (ConnectionRateLimiter_init 1)))
       = (True, \<lparr>connection_times = [60], max_connections = 1\<rparr>)
   \<and> allow_connection_spec 60 (snd (allow_connection 0 (ConnectionRateLimiter_init 1)))
       = (False, \<lparr>connection_times = [0], max_connections = 1\<rparr>)"
  by (simp add: allow_connection_def allow_connection_spec_def ConnectionRateLimiter_init_def
      float_sub_60)

section \<open>Heartbeats and the capacity\<close>

text \<open>Registrations, heartbeats and sweeps.\<close>

fun lifecycle_op :: "'cmd operation \<Rightarrow> bool" where
  "lifecycle_op (Register cid addr host seen conn) = True"
| "lifecycle_op (Touch cid now) = True"
| "lifecycle_op (Sweep now timeout_seconds) = True"
| "lifecycle_op other = False"

text \<open>
  A sequence of such operations for a capacity \<open>m\<close>: one client registers and is swept
  offline, \<open>m\<close> other clients register, and the first client sends a heartbeat.
\<close>

definition client_name :: "nat \<Rightarrow> string" where
  "client_name i = replicate (Suc i) CHR ''c''"

definition late_register :: "nat \<Rightarrow> 'cmd operation" where
  "late_register i = Register (client_name i) ''10.0.0.1'' ''host'' 301000000 301000000"

definition overshoot :: "nat \<Rightarrow> 'cmd operation list" where
  "overshoot m =
     [Register (client_name 0) ''10.0.0.1'' ''host'' 0 0, Sweep 301000000 300]
     @ map late_register [1..<Suc m]
     @ [Touch (client_name 0) 301000000]"

lemma run_append: "run (xs @ ys) s = run ys (run xs s)"
  by (induction xs arbitrary: s) simp_all

lemma update_fresh: "k \<notin> fst ` set al \<Longrightarrow> AList.update k v al = al @ [(k, v)]"
  by (induction al) auto

lemma client_name_eq [simp]: "client_name i = client_name j \<longleftrightarrow> i = j"
proof
  assume "client_name i = client_name j"
  then have "length (client_name i) = length (client_name j)" by simp
  then show "i = j" by (simp add: client_name_def)
qed simp

definition stale_client :: ClientInfo where
  "stale_client = (ClientInfo_init (client_name 0) ''10.0.0.1'' ''host'' 0 0)\<lparr>status := ''offline''\<rparr>"

definition late_client :: "nat \<Rightarrow> string \<times> ClientInfo" where
  "late_client i =
     (client_name i, ClientInfo_init (client_name i) ''10.0.0.1'' ''host'' 301000000 301000000)"

lemma late_online:
  "filter (\<lambda>c. status c = ''online'') (map snd (map late_client xs)) = map snd (map late_client xs)"
  by (induction xs) (simp_all add: late_client_def ClientInfo_init_def)

lemma active_late:
  "active_clients (s\<lparr>clients := (n, c) # map late_client xs\<rparr>) =
     (if status c = ''online'' then 1 else 0) + int (length xs)"
proof -
  have "length (filter (\<lambda>c. status c = ''online'') (map snd (map late_client xs))) = length xs"
    unfolding late_online by simp
  then show ?thesis by (simp add: active_clients_def)
qed

lemma overshoot_prefix:
  assumes "0 < m"
  shows "run [Register (client_name 0) ''10.0.0.1'' ''host'' 0 0, Sweep 301000000 300]
           (ClientManager_init (int m) thr :: 'cmd ClientManager)
         = (ClientManager_init (int m) thr)\<lparr>clients := [(client_name 0, stale_client)]\<rparr>"
  using assms
  by (simp add: register_client_def can_accept_client_def ClientManager_init_def
      active_clients_def cleanup_inactive_clients_def total_seconds_301000000 ClientInfo_init_def
      stale_client_def)

lemma overshoot_registrations:
  assumes "k \<le> m"
  shows "run (map late_register [1..<Suc k])
           ((ClientManager_init (int m) thr :: 'cmd ClientManager)
              \<lparr>clients := [(client_name 0, stale_client)]\<rparr>)
         = (ClientManager_init (int m) thr)
              \<lparr>clients := (client_name 0, stale_client) # map late_client [1..<Suc k]\<rparr>"
  using assms
proof (induction k)
  case 0
  show ?case by simp
next
  case (Suc k)
  let ?s = "(ClientManager_init (int m) thr :: 'cmd ClientManager)
              \<lparr>clients := (client_name 0, stale_client) # map late_client [1..<Suc k]\<rparr>"
  from Suc have IH: "run (map late_register [1..<Suc k])
           ((ClientManager_init (int m) thr :: 'cmd ClientManager)
              \<lparr>clients := [(client_name 0, stale_client)]\<rparr>) = ?s"
    by simp
  have count: "active_clients ?s = int k"
    unfolding active_late by (simp add: stale_client_def)
  with Suc.prems have acc: "can_accept_client ?s"
    by (simp add: can_accept_client_def ClientManager_init_def)
  have fresh: "client_name (Suc k) \<notin> fst ` set ((client_name 0, stale_client) # map late_client [1..<Suc k])"
    by (auto simp: late_client_def)
  have "step (late_register (Suc k)) ?s =
      ?s\<lparr>clients := ((client_name 0, stale_client) # map late_client [1..<Suc k])
                       @ [late_client (Suc k)]\<rparr>"
    using acc update_fresh [OF fresh]
    by (simp add: late_register_def register_client_def late_client_def)
  then have "run (map late_register [1..<Suc k] @ [late_register (Suc k)])
           ((ClientManager_init (int m) thr :: 'cmd ClientManager)
              \<lparr>clients := [(client_name 0, stale_client)]\<rparr>)
      = (ClientManager_init (int m) thr)
              \<lparr>clients := (client_name 0, stale_client) # map late_client [1..<Suc (Suc k)]\<rparr>"
    unfolding run_append IH by simp
  then show ?case by simp
qed

lemma overshoot_run:
  assumes "0 < m"
  shows "run (overshoot m) (ClientManager_init (int m) thr :: 'cmd ClientManager)
         = (ClientManager_init (int m) thr)
              \<lparr>clients := (client_name 0, stale_client\<lparr>last_seen := 301000000, status := ''online''\<rparr>)
                           # map late_client [1..<Suc m]\<rparr>"
proof -
  have "run (overshoot m) (ClientManager_init (int m) thr :: 'cmd ClientManager)
      = step (Touch (client_name 0) 301000000)
          ((ClientManager_init (int m) thr)
              \<lparr>clients := (client_name 0, stale_client) # map late_client [1..<Suc m]\<rparr>)"
    unfolding overshoot_def run_append overshoot_prefix [OF assms]
      overshoot_registrations [OF order_refl] by simp
  then show ?thesis by (simp add: update_heartbeat_def)
qed

lemma overshoot_active:
  assumes "0 < m"
  shows "active_clients (run (overshoot m) (ClientManager_init (int m) thr :: 'cmd ClientManager))
         = int m + 1"
  unfolding overshoot_run [OF assms] active_late by simp

lemma overshoot_lifecycle: "list_all lifecycle_op (overshoot m :: 'cmd operation list)"
  by (simp add: overshoot_def list_all_iff late_register_def)

lemma overshoot_before_heartbeat:
  assumes "0 < m"
  shows "\<not> can_accept_client
           (run (butlast (overshoot m)) (ClientManager_init (int m) thr :: 'cmd ClientManager))"
proof -
  let ?pre = "[Register (client_name 0) ''10.0.0.1'' ''host'' 0 0, Sweep 301000000 300
               :: 'cmd operation]"
  have b: "butlast (overshoot m :: 'cmd operation list) = ?pre @ map late_register [1..<Suc m]"
    unfolding overshoot_def by (simp only: append_assoc [symmetric] butlast_snoc)
  have r: "run (?pre @ map late_register [1..<Suc m])
        (ClientManager_init (int m) thr :: 'cmd ClientManager)
      = (ClientManager_init (int m) thr)
              \<lparr>clients := (client_name 0, stale_client) # map late_client [1..<Suc m]\<rparr>"
    unfolding run_append overshoot_prefix [OF assms]
    by (rule overshoot_registrations [OF order_refl])
  show ?thesis
    unfolding b r can_accept_client_def active_late
    by (simp add: ClientManager_init_def stale_client_def)
qed

text \<open>
  C3. \<^verbatim>\<open>update_heartbeat\<close> on a client with a record returns True and leaves its status
  online in every state, whatever the number of online clients and the resource
  snapshot. So the capacity can be exceeded by registrations, sweeps and heartbeats
  alone: for every capacity \<open>m > 0\<close> the sequence \<open>overshoot m\<close> ends with a heartbeat in a
  state where \<^verbatim>\<open>can_accept_client\<close> is False, and after it \<open>m + 1\<close> clients are online;
  in particular such a sequence exists for the capacity 50 of the server.
\<close>

theorem heartbeat_bypasses_admission:
  "(\<forall>c. map_of (clients s) cid = Some c \<longrightarrow>
        fst (update_heartbeat cid now s) = True
      \<and> map_option status (map_of (clients (snd (update_heartbeat cid now s))) cid)
          = Some ''online'')
   \<and> (0 < m \<longrightarrow>
        list_all lifecycle_op (overshoot m :: 'cmd operation list)
      \<and> \<not> can_accept_client
           (run (butlast (overshoot m)) (ClientManager_init (int m) thr :: 'cmd ClientManager))
      \<and> max_clients (run (overshoot m) (ClientManager_init (int m) thr :: 'cmd ClientManager))
          = int m
      \<and> active_clients (run (overshoot m) (ClientManager_init (int m) thr :: 'cmd ClientManager))
          = int m + 1)
   \<and> (\<exists>ops :: 'cmd operation list. list_all lifecycle_op ops
        \<and> max_clients (run ops (ClientManager_init 50 thr :: 'cmd ClientManager))
          < active_clients (run ops (ClientManager_init 50 thr :: 'cmd ClientManager)))"
proof (intro conjI allI impI)
  fix c assume c: "map_of (clients s) cid = Some c"
  then show "fst (update_heartbeat cid now s) = True"
    by (simp add: update_heartbeat_def)
  from c show "map_option status (map_of (clients (snd (update_heartbeat cid now s))) cid)
      = Some ''online''"
    by (simp add: update_heartbeat_def map_of_AList_update)
next
  show "list_all lifecycle_op (overshoot m :: 'cmd operation list)"
    by (rule overshoot_lifecycle)
next
  assume "0 < m"
  then show "\<not> can_accept_client
           (run (butlast (overshoot m)) (ClientManager_init (int m) thr :: 'cmd ClientManager))"
    by (rule overshoot_before_heartbeat)
next
  assume "0 < m"
  then show "max_clients (run (overshoot m) (ClientManager_init (int m) thr :: 'cmd ClientManager))
          = int m"
    by (simp only: overshoot_run) (simp add: ClientManager_init_def)
next
  assume "0 < m"
  then show "active_clients (run (overshoot m) (ClientManager_init (int m) thr :: 'cmd ClientManager))
          = int m + 1"
    by (rule overshoot_active)
next
  have m: "max_clients (run (overshoot 50) (ClientManager_init (int 50) thr :: 'cmd ClientManager))
      = int 50"
    by (simp only: overshoot_run [of 50 thr, OF zero_less_numeral])
      (simp add: ClientManager_init_def)
  have a: "active_clients (run (overshoot 50) (ClientManager_init (int 50) thr :: 'cmd ClientManager))
      = int 50 + 1"
    by (rule overshoot_active) simp
  have "list_all lifecycle_op (overshoot 50 :: 'cmd operation list)
      \<and> max_clients (run (overshoot 50) (ClientManager_init 50 thr :: 'cmd ClientManager))
        < active_clients (run (overshoot 50) (ClientManager_init 50 thr :: 'cmd ClientManager))"
    using m a overshoot_lifecycle [of 50] by simp
  then show "\<exists>ops :: 'cmd operation list. list_all lifecycle_op ops
        \<and> max_clients (run ops (ClientManager_init 50 thr :: 'cmd ClientManager))
          < active_clients (run ops (ClientManager_init 50 thr :: 'cmd ClientManager))"
    by (rule exI)
qed

theorem heartbeat_bypasses_admission_witness:
  "(0::nat) < 1
   \<and> \<not> can_accept_client
        (run (butlast (overshoot 1)) (ClientManager_init 1 0.8 :: nat ClientManager))
   \<and> active_clients (run (overshoot 1) (ClientManager_init 1 0.8 :: nat ClientManager)) = 2
   \<and> max_clients (run (overshoot 1) (ClientManager_init 1 0.8 :: nat ClientManager)) = 1
   \<and> fst (update_heartbeat ''c1'' 400000009
        (run [Register ''c1'' ''10.0.0.1'' ''h1'' 1 2, Sweep 400000000 300]
           (ClientManager_init 1 0.8 :: nat ClientManager))) = True
   \<and> map_option status (map_of (clients (snd (update_heartbeat ''c1'' 400000009
        (run [Register ''c1'' ''10.0.0.1'' ''h1'' 1 2, Sweep 400000000 300]
           (ClientManager_init 1 0.8 :: nat ClientManager))))) ''c1'') = Some ''online''"
proof -
  let ?s = "run [Register ''c1'' ''10.0.0.1'' ''h1'' 1 2, Sweep 400000000 300]
           (ClientManager_init 1 0.8 :: nat ClientManager)"
  let ?c = "\<lparr>client_id = ''c1'', ip = ''10.0.0.1'', hostname = ''h1'', last_seen = 1,
            status = ''offline'', connection_time = 2,
            resource_usage = 0, commands_processed = 0\<rparr>"
  have cl: "clients ?s = [(''c1'', ?c)]"
    by (simp add: register_client_def can_accept_client_def ClientManager_init_def
        active_clients_def ClientInfo_init_def cleanup_inactive_clients_def
        total_seconds_399999999)
  have c1: "map_of (clients ?s) ''c1'' = Some ?c" unfolding cl by simp
  have pos: "(0::nat) < 1" by simp
  note t = heartbeat_bypasses_admission [of ?s "''c1''" 400000009 1 "0.8"]
  note first = t [THEN conjunct1, rule_format, OF c1]
  from t [THEN conjunct2, THEN conjunct1] pos
  have second: "list_all lifecycle_op (overshoot 1 :: nat operation list)
      \<and> \<not> can_accept_client
           (run (butlast (overshoot 1)) (ClientManager_init (int 1) 0.8 :: nat ClientManager))
      \<and> max_clients (run (overshoot 1) (ClientManager_init (int 1) 0.8 :: nat ClientManager))
          = int 1
      \<and> active_clients (run (overshoot 1) (ClientManager_init (int 1) 0.8 :: nat ClientManager))
          = int 1 + 1"
    by (rule mp)
  from second have a: "\<not> can_accept_client
        (run (butlast (overshoot 1)) (ClientManager_init 1 0.8 :: nat ClientManager))"
    and b: "active_clients (run (overshoot 1) (ClientManager_init 1 0.8 :: nat ClientManager)) = 2"
    and c: "max_clients (run (overshoot 1) (ClientManager_init 1 0.8 :: nat ClientManager)) = 1"
    by simp_all
  from pos a b c first show ?thesis by blast
qed

end
